theory Spec2Isabelle
  imports Main
begin

section \<open>Errors\<close>

text \<open>
  The exceptions of \<^verbatim>\<open>funlib/persistence/arrays/datasets.py\<close> as values. A failed
  \<^verbatim>\<open>assert\<close> is an \<open>AssertionError\<close>, a \<^verbatim>\<open>raise RuntimeError(...)\<close> a
  \<open>RuntimeError\<close>; both carry the message as the source writes it (the template of
  an f-string or of a \<^verbatim>\<open>%\<close>-format) and the values formatted into it, in order.
  \<open>KeyError\<close> is a missing key of an attribute dictionary, \<open>ZeroDivisionError\<close> a
  division or remainder by zero, \<open>OverflowError\<close> a quotient too large for a float,
  \<open>TypeError\<close> the division \<^verbatim>\<open>b // None\<close>, \<open>AttributeError\<close> the read of an
  attribute that an object does not have, \<open>ValueError\<close> a compressor that is not a
  codec configuration, \<open>OpenFailure\<close> the backend's failure to open a container or
  a dataset in it, \<open>FileNotFoundError\<close> a descriptor file that does not exist and
  \<open>RecursionError\<close> the interpreter's recursion limit.
\<close>

type_synonym coordinate = "int list"

datatype error =
    AssertionError string "coordinate list"
  | RuntimeError string "string list"
  | KeyError string
  | ZeroDivisionError
  | OverflowError
  | TypeError
  | AttributeError string
  | ValueError string
  | OpenFailure string string
  | FileNotFoundError string
  | RecursionError

text \<open>Sequencing of computations that may raise: the first error ends the computation.\<close>

definition and_then :: "error + 'a \<Rightarrow> ('a \<Rightarrow> error + 'b) \<Rightarrow> error + 'b" where
  "and_then m f = (case m of Inl e \<Rightarrow> Inl e | Inr x \<Rightarrow> f x)"

section \<open>The chunk geometry planner\<close>

text \<open>
  \<^verbatim>\<open>get_chunk_size_dim(b, target_chunk_size)\<close>, lines 391--401. The loop
  \<^verbatim>\<open>for k in range(1, b + 1)\<close> is a left fold over \<open>[1..b]\<close>; its state is the
  pair \<^verbatim>\<open>(best_k, best_target_diff)\<close>, with \<open>None\<close> for the unset \<^verbatim>\<open>best_k\<close>.
  Python's \<^verbatim>\<open>//\<close> and \<^verbatim>\<open>%\<close> on integers are \<open>div\<close> and \<open>mod\<close> on \<open>int\<close>
  (both round towards minus infinity). The final \<^verbatim>\<open>b // best_k\<close> raises a
  \<^verbatim>\<open>TypeError\<close> when \<^verbatim>\<open>best_k\<close> is still \<^verbatim>\<open>None\<close>.
\<close>

definition chunk_scan_step :: "int \<Rightarrow> int \<Rightarrow> int option \<times> int \<Rightarrow> int \<Rightarrow> int option \<times> int" where
  "chunk_scan_step b target_chunk_size acc k =
     (case acc of (best_k, best_target_diff) \<Rightarrow>
        if ((b div k) * k) mod b = 0 then
          (let diff = \<bar>b div k - target_chunk_size\<bar> in
           if best_k = None \<or> diff < best_target_diff then (Some k, diff)
           else (best_k, best_target_diff))
        else (best_k, best_target_diff))"

definition chunk_scan :: "int \<Rightarrow> int \<Rightarrow> int \<Rightarrow> int option \<times> int" where
  "chunk_scan b target_chunk_size m = foldl (chunk_scan_step b target_chunk_size) (None, 0) [1..m]"

definition get_chunk_size_dim :: "int \<Rightarrow> int \<Rightarrow> error + int" where
  "get_chunk_size_dim b target_chunk_size =
     (case fst (chunk_scan b target_chunk_size b) of
        None \<Rightarrow> Inl TypeError
      | Some best_k \<Rightarrow> Inr (b div best_k))"

text \<open>
  \<^verbatim>\<open>get_chunk_shape(block_shape)\<close>, lines 381--388: the planner on every axis with
  the target 256, left to right; the first axis that raises decides the error.
\<close>

fun get_chunk_shape :: "int list \<Rightarrow> error + int list" where
  "get_chunk_shape [] = Inr []"
| "get_chunk_shape (b # bs) =
     (case get_chunk_size_dim b 256 of
        Inl e \<Rightarrow> Inl e
      | Inr c \<Rightarrow> (case get_chunk_shape bs of Inl e \<Rightarrow> Inl e | Inr cs \<Rightarrow> Inr (c # cs)))"

section \<open>Geometry types\<close>

text \<open>
  Python's \<^verbatim>\<open>a / b\<close> on two integers is the exact quotient rounded to the nearest
  double (53 bits of mantissa, ties to the even mantissa), and \<^verbatim>\<open>int\<close> of a float
  drops its fraction. \<open>float_quotient n d\<close> is \<^verbatim>\<open>int(n / d)\<close> for \<open>n \<ge> 0\<close> and
  \<open>d > 0\<close>. A quotient below \<open>2 ^ 53\<close> is scaled up by the least power of two \<open>k\<close>
  that brings it to \<open>2 ^ 52\<close> or more, rounded to an integer (the mantissa), and
  scaled back: the float is \<open>mantissa / k\<close>. A quotient from \<open>2 ^ 53\<close> on is scaled
  down by the least power of two \<open>k\<close> that brings it below \<open>2 ^ 53\<close>, rounded, and
  scaled back: the float is \<open>mantissa * k\<close>. \<open>py_truediv a b\<close> is \<^verbatim>\<open>int(a / b)\<close> for
  integers of either sign (rounding is symmetric); the division raises
  \<^verbatim>\<open>OverflowError\<close> when the rounded quotient reaches \<open>2 ^ 1024\<close>.
\<close>

definition round_half_even :: "int \<Rightarrow> int \<Rightarrow> int" where
  "round_half_even x y =
     (let q = x div y; r = x mod y
      in if 2 * r < y then q else if y < 2 * r then q + 1 else if even q then q else q + 1)"

function scale_up_to :: "int \<Rightarrow> int \<Rightarrow> int \<Rightarrow> int" where
  "scale_up_to n d k =
     (if n \<le> 0 \<or> k \<le> 0 \<or> d * 2 ^ 52 \<le> n * k then k else scale_up_to n d (2 * k))"
  by pat_completeness auto
termination
proof (relation "measure (\<lambda>(n, d, k). nat (d * 2 ^ 52 - n * k))")
  show "wf (measure (\<lambda>(n, d, k). nat (d * 2 ^ 52 - n * k)))" by simp
next
  fix n d k :: int
  assume "\<not> (n \<le> 0 \<or> k \<le> 0 \<or> d * 2 ^ 52 \<le> n * k)"
  then have "0 < n" "0 < k" "n * k < d * 2 ^ 52" by simp_all
  moreover from this have "0 < n * k" by simp
  moreover have "n * (2 * k) = 2 * (n * k)" by simp
  ultimately have "nat (d * 2 ^ 52 - n * (2 * k)) < nat (d * 2 ^ 52 - n * k)" by linarith
  then show "((n, d, 2 * k), (n, d, k)) \<in> measure (\<lambda>(n, d, k). nat (d * 2 ^ 52 - n * k))"
    by simp
qed

function scale_down_to :: "int \<Rightarrow> int \<Rightarrow> int \<Rightarrow> int" where
  "scale_down_to n d k =
     (if d \<le> 0 \<or> k \<le> 0 \<or> n < d * 2 ^ 53 * k then k else scale_down_to n d (2 * k))"
  by pat_completeness auto
termination
proof (relation "measure (\<lambda>(n, d, k). nat (1 + n - d * 2 ^ 53 * k))")
  show "wf (measure (\<lambda>(n, d, k). nat (1 + n - d * 2 ^ 53 * k)))" by simp
next
  fix n d k :: int
  assume "\<not> (d \<le> 0 \<or> k \<le> 0 \<or> n < d * 2 ^ 53 * k)"
  then have "0 < d" "0 < k" "d * 2 ^ 53 * k \<le> n" by simp_all
  moreover from this have "0 < d * 2 ^ 53 * k" by simp
  moreover have "d * 2 ^ 53 * (2 * k) = 2 * (d * 2 ^ 53 * k)" by simp
  ultimately have "nat (1 + n - d * 2 ^ 53 * (2 * k)) < nat (1 + n - d * 2 ^ 53 * k)"
    by linarith
  then show "((n, d, 2 * k), (n, d, k)) \<in> measure (\<lambda>(n, d, k). nat (1 + n - d * 2 ^ 53 * k))"
    by simp
qed

declare scale_up_to.simps [simp del] scale_down_to.simps [simp del]

definition float_quotient :: "int \<Rightarrow> int \<Rightarrow> int" where
  "float_quotient n d =
     (if n < d * 2 ^ 53 then
        (let k = scale_up_to n d 1 in round_half_even (n * k) d div k)
      else
        (let k = scale_down_to n d 2 in round_half_even n (d * k) * k))"

definition py_truediv :: "int \<Rightarrow> int \<Rightarrow> int" where
  "py_truediv a b = sgn a * sgn b * float_quotient \<bar>a\<bar> \<bar>b\<bar>"

definition overflows :: "int \<Rightarrow> int \<Rightarrow> bool" where
  "overflows a b = (2 ^ 1024 \<le> float_quotient \<bar>a\<bar> \<bar>b\<bar>)"

text \<open>
  Modelled from the spec: \<^verbatim>\<open>Coordinate\<close> and \<^verbatim>\<open>Roi\<close> come from the external
  package \<^verbatim>\<open>funlib.geometry\<close>, whose source is not part of this repository. The
  spec describes \<^verbatim>\<open>Coordinate\<close> as an integer vector with elementwise arithmetic,
  divisibility checks and reversal, and \<^verbatim>\<open>Roi\<close> as an offset vector with a shape
  vector. A coordinate is an \<open>int list\<close>. The elementwise operators are defined on
  vectors of equal dimensionality and fail on others. \<^verbatim>\<open>/\<close> is Python's division
  of the components, converted back to integers: \<^verbatim>\<open>int(a / b)\<close>, component by
  component from the first; a zero divisor raises, and so does a quotient too large
  for a float, and the first component that raises decides the error.
  \<^verbatim>\<open>is_multiple_of\<close> compares the axes that both vectors have, with the exact
  remainder \<^verbatim>\<open>%\<close>.
\<close>

definition coord_add :: "coordinate \<Rightarrow> coordinate \<Rightarrow> error + coordinate" where
  "coord_add a b =
     (if length a \<noteq> length b then Inl (AssertionError ''can only add Coordinate of equal dimensions'' [])
      else Inr (map2 (+) a b))"

definition coord_mul :: "coordinate \<Rightarrow> coordinate \<Rightarrow> error + coordinate" where
  "coord_mul a b =
     (if length a \<noteq> length b then Inl (AssertionError ''can only multiply Coordinate of equal dimensions'' [])
      else Inr (map2 (*) a b))"

fun truediv_components :: "int list \<Rightarrow> int list \<Rightarrow> error + int list" where
  "truediv_components (x # xs) (y # ys) =
     (if y = 0 then Inl ZeroDivisionError
      else if overflows x y then Inl OverflowError
      else (case truediv_components xs ys of
              Inl e \<Rightarrow> Inl e
            | Inr qs \<Rightarrow> Inr (py_truediv x y # qs)))"
| "truediv_components xs ys = Inr []"

definition coord_truediv :: "coordinate \<Rightarrow> coordinate \<Rightarrow> error + coordinate" where
  "coord_truediv a b =
     (if length a \<noteq> length b then Inl (AssertionError ''can only divide Coordinate of equal dimensions'' [])
      else truediv_components a b)"

definition coord_truediv_number :: "coordinate \<Rightarrow> int \<Rightarrow> error + coordinate" where
  "coord_truediv_number a n = truediv_components a (replicate (length a) n)"

definition is_multiple_of :: "coordinate \<Rightarrow> coordinate \<Rightarrow> error + bool" where
  "is_multiple_of a b =
     (if 0 \<in> snd ` set (zip a b) then Inl ZeroDivisionError
      else Inr (list_all (\<lambda>(x, y). x mod y = 0) (zip a b)))"

record roi =
  roi_begin :: coordinate
  roi_shape :: coordinate

section \<open>Backend datasets and their attributes\<close>

text \<open>
  The raw attribute set of a backend dataset, restricted to the keys that
  \<^verbatim>\<open>_read_voxel_size_offset\<close> consults. A key that is absent is \<open>None\<close>. Attribute
  vectors are integer vectors (\<^verbatim>\<open>Coordinate(...)\<close> converts every component with
  \<^verbatim>\<open>int\<close>). \<^verbatim>\<open>pixelResolution\<close> is a dictionary that may lack \<^verbatim>\<open>dimensions\<close>; the
  \<^verbatim>\<open>transform\<close> dictionary may lack each of \<^verbatim>\<open>ordering\<close>, \<^verbatim>\<open>scale\<close> and
  \<^verbatim>\<open>translate\<close>.
\<close>

record transform_attr =
  t_ordering :: "string option"
  t_scale :: "coordinate option"
  t_translate :: "coordinate option"

record attrs =
  a_resolution :: "coordinate option"
  a_scale :: "coordinate option"
  a_pixelResolution :: "coordinate option option"
  a_transform :: "transform_attr option"
  a_offset :: "coordinate option"

definition no_attrs :: attrs where
  "no_attrs = \<lparr>a_resolution = None, a_scale = None, a_pixelResolution = None,
               a_transform = None, a_offset = None\<rparr>"

text \<open>
  Compressors are opaque to this layer: a name (\<^verbatim>\<open>"default"\<close> is the sentinel), a
  codec configuration (identifier and level), or none.
\<close>

datatype compressor = Named string | Config string int | NoCompressor

text \<open>
  The numeric dtypes of numpy in native byte order. A dtype argument in any spelling
  (\<^verbatim>\<open>"u1"\<close>, \<^verbatim>\<open>"uint8"\<close>, \<^verbatim>\<open>np.uint8\<close>) stands for the dtype it denotes, and
  equality is numpy's equality of dtypes.
\<close>

datatype dtype =
    Bool8 | Int8 | Int16 | Int32 | Int64 | UInt8 | UInt16 | UInt32 | UInt64
  | Float16 | Float32 | Float64 | Complex64 | Complex128

text \<open>
  Modelled from the spec: the storage backends (\<^verbatim>\<open>zarr\<close>, \<^verbatim>\<open>h5py\<close>) are external
  and opaque; a backend dataset is what this layer reads from it: shape, chunk
  geometry (\<open>None\<close> for a contiguous HDF5 dataset; Zarr and N5 datasets always have
  chunks), dtype, compressor, attributes and (for zarr) the memory order.
\<close>

record dataset =
  ds_shape :: "int list"
  ds_chunks :: "int list option"
  ds_dtype :: dtype
  ds_compressor :: compressor
  ds_attrs :: attrs
  ds_order :: string

section \<open>The metadata resolver\<close>

text \<open>
  \<^verbatim>\<open>_read_voxel_size_offset(ds, order)\<close>, lines 17--84, in the order of the source:
  the voxel size (lines 22--40), the offset (lines 42--55), the defaults (lines
  57--64), the reversal for column-major order (lines 66--68) and the snapping of
  the offset (lines 70--82).
\<close>

definition transform_order :: "transform_attr \<Rightarrow> string" where
  "transform_order t = (case t_ordering t of None \<Rightarrow> ''C'' | Some s \<Rightarrow> s)"

definition read_voxel_size :: "attrs \<Rightarrow> string \<Rightarrow> error + coordinate option" where
  "read_voxel_size at order =
     (case a_resolution at of
        Some r \<Rightarrow> Inr (Some r)
      | None \<Rightarrow>
         (case a_scale at of
            Some s \<Rightarrow> Inr (Some s)
          | None \<Rightarrow>
             (case a_pixelResolution at of
                Some p \<Rightarrow>
                  (case p of None \<Rightarrow> Inl (KeyError ''dimensions'') | Some d \<Rightarrow> Inr (Some d))
              | None \<Rightarrow>
                 (case a_transform at of
                    Some t \<Rightarrow>
                      (case t_scale t of
                         None \<Rightarrow> Inl (KeyError ''scale'')
                       | Some s \<Rightarrow> Inr (Some (if transform_order t \<noteq> order then rev s else s)))
                  | None \<Rightarrow> Inr None))))"

definition read_offset :: "attrs \<Rightarrow> string \<Rightarrow> nat option \<Rightarrow> error + (coordinate option \<times> nat option)" where
  "read_offset at order dims =
     (case a_offset at of
        Some off \<Rightarrow>
          (case dims of
             Some d \<Rightarrow>
               if d = length off then Inr (Some off, dims)
               else Inl (AssertionError ''resolution and offset attributes differ in length'' [])
           | None \<Rightarrow> Inr (Some off, Some (length off)))
      | None \<Rightarrow>
         (case a_transform at of
            Some t \<Rightarrow>
              (case t_translate t of
                 None \<Rightarrow> Inl (KeyError ''translate'')
               | Some tr \<Rightarrow> Inr (Some (if transform_order t \<noteq> order then rev tr else tr), dims))
          | None \<Rightarrow> Inr (None, dims)))"

text \<open>Lines 79--81: the rounding of the offset to a multiple of the voxel size.\<close>

definition snap_formula :: "coordinate \<Rightarrow> coordinate \<Rightarrow> error + coordinate" where
  "snap_formula offset voxel_size =
     and_then (coord_truediv_number voxel_size 2) (\<lambda>half.
     and_then (coord_add offset half) (\<lambda>shifted.
     and_then (coord_truediv shifted voxel_size) (\<lambda>q.
     coord_mul q voxel_size)))"

text \<open>Lines 70--82: the test whether the offset is aligned, and the rounding if not.\<close>

definition snap_offset :: "coordinate \<Rightarrow> coordinate \<Rightarrow> error + coordinate" where
  "snap_offset offset voxel_size =
     and_then (coord_truediv offset voxel_size) (\<lambda>q.
     and_then (coord_mul q voxel_size) (\<lambda>back.
     if back \<noteq> offset then snap_formula offset voxel_size else Inr offset))"

definition read_voxel_size_offset :: "dataset \<Rightarrow> string \<Rightarrow> error + (coordinate \<times> coordinate)" where
  "read_voxel_size_offset ds order =
     and_then (read_voxel_size (ds_attrs ds) order) (\<lambda>voxel_size0.
     and_then (read_offset (ds_attrs ds) order (map_option length voxel_size0)) (\<lambda>(offset0, dims0).
       let dims = (case dims0 of None \<Rightarrow> length (ds_shape ds) | Some d \<Rightarrow> d);
           voxel_size1 = (case voxel_size0 of None \<Rightarrow> replicate dims 1 | Some v \<Rightarrow> v);
           offset1 = (case offset0 of None \<Rightarrow> replicate dims 0 | Some off \<Rightarrow> off);
           offset2 = (if order = ''F'' then rev offset1 else offset1);
           voxel_size = (if order = ''F'' then rev voxel_size1 else voxel_size1)
       in and_then (snap_offset offset2 voxel_size) (\<lambda>offset. Inr (voxel_size, offset))))"

section \<open>Handles and the store\<close>

text \<open>
  Modelled from the spec: \<^verbatim>\<open>Array\<close> is defined in the module \<^verbatim>\<open>.array\<close> of this
  package, which is not among the sources at hand. The spec describes the handle as
  backend dataset reference, Roi, voxel size, optional chunk shape and dtype, with an
  origin-translation base for derived views. \<open>mk_array\<close> is the constructor
  \<^verbatim>\<open>Array(data, roi, voxel_size, data_offset, chunk_shape)\<close>; a missing
  \<^verbatim>\<open>data_offset\<close> is the begin of the Roi. The shape of a handle is its logical
  shape: the leading channel axes of the backend shape followed by the Roi's shape
  in voxels; its dtype is the backend dataset's.
\<close>

record array =
  arr_data :: dataset
  arr_roi :: roi
  arr_voxel_size :: coordinate
  arr_data_offset :: coordinate
  arr_chunk_shape :: "coordinate option"

definition mk_array :: "dataset \<Rightarrow> roi \<Rightarrow> coordinate \<Rightarrow> coordinate option \<Rightarrow> coordinate option \<Rightarrow> array" where
  "mk_array d r voxel_size data_offset chunk_shape =
     \<lparr>arr_data = d, arr_roi = r, arr_voxel_size = voxel_size,
      arr_data_offset = (case data_offset of None \<Rightarrow> roi_begin r | Some off \<Rightarrow> off),
      arr_chunk_shape = chunk_shape\<rparr>"

definition array_shape :: "array \<Rightarrow> error + int list" where
  "array_shape a =
     and_then (coord_truediv (roi_shape (arr_roi a)) (arr_voxel_size a)) (\<lambda>s.
     Inr (take (length (ds_shape (arr_data a)) - length (roi_shape (arr_roi a))) (ds_shape (arr_data a)) @ s))"

definition array_dtype :: "array \<Rightarrow> dtype" where
  "array_dtype a = ds_dtype (arr_data a)"

text \<open>
  Modelled from the spec: the file system and the backends' containers. A store maps
  the path of a container that exists to its datasets by name, and the path of a
  JSON descriptor file that exists to its content; \<open>auto_chunks\<close> is the backend's
  choice of chunks for a dataset that is created without explicit chunks, from its
  shape and dtype. Dataset names are single path components; the empty name is the
  container itself: \<^verbatim>\<open>os.path.join(filename, "")\<close> is the container's directory and
  \<^verbatim>\<open>zarr.open(filename)[""]\<close> its root group, which has no attributes in this model.
  \<open>isdir\<close> is \<^verbatim>\<open>os.path.isdir(filename)\<close>, \<open>isdir_ds\<close> is
  \<^verbatim>\<open>os.path.isdir(os.path.join(filename, ds_name))\<close>, \<open>makedirs\<close> is
  \<^verbatim>\<open>os.makedirs(filename)\<close> followed by \<^verbatim>\<open>zarr.open(filename, mode="w")\<close>,
  \<open>create_dataset\<close> is \<^verbatim>\<open>zarr.open(filename, mode="a").create_dataset(...)\<close> with
  the attributes written after it, \<open>rmtree\<close> is \<^verbatim>\<open>shutil.rmtree\<close> of the joined
  path, and \<open>backend_open\<close> is \<^verbatim>\<open>zarr.open(filename, mode)[ds_name]\<close> (or
  \<^verbatim>\<open>h5py.File\<close>), which fails when the container or the dataset is missing.
  Creating a dataset always succeeds in this model, and opening leaves the store as
  it is: what the modes that create or truncate a container do to it is not modelled.
\<close>

record json_spec =
  spec_container :: string
  spec_offset :: coordinate
  spec_size :: coordinate

record store =
  containers :: "string \<rightharpoonup> (string \<rightharpoonup> dataset)"
  json_files :: "string \<rightharpoonup> json_spec"
  auto_chunks :: "int list \<Rightarrow> dtype \<Rightarrow> int list"

datatype node = Group | Dataset dataset

definition isdir :: "store \<Rightarrow> string \<Rightarrow> bool" where
  "isdir st filename = (containers st filename \<noteq> None)"

definition isdir_ds :: "store \<Rightarrow> string \<Rightarrow> string \<Rightarrow> bool" where
  "isdir_ds st filename ds_name =
     (case containers st filename of
        None \<Rightarrow> False
      | Some c \<Rightarrow> ds_name = [] \<or> c ds_name \<noteq> None)"

definition makedirs :: "store \<Rightarrow> string \<Rightarrow> store" where
  "makedirs st filename = st\<lparr>containers := (containers st)(filename \<mapsto> Map.empty)\<rparr>"

definition create_dataset :: "store \<Rightarrow> string \<Rightarrow> string \<Rightarrow> dataset \<Rightarrow> store" where
  "create_dataset st filename ds_name d =
     st\<lparr>containers := (containers st)(filename \<mapsto>
        (case containers st filename of None \<Rightarrow> Map.empty | Some c \<Rightarrow> c)(ds_name \<mapsto> d))\<rparr>"

definition rmtree :: "store \<Rightarrow> string \<Rightarrow> string \<Rightarrow> store" where
  "rmtree st filename ds_name =
     (case containers st filename of
        None \<Rightarrow> st
      | Some c \<Rightarrow>
         if ds_name = [] then st\<lparr>containers := (containers st)(filename := None)\<rparr>
         else st\<lparr>containers := (containers st)(filename \<mapsto> c(ds_name := None))\<rparr>)"

definition backend_open :: "store \<Rightarrow> string \<Rightarrow> string \<Rightarrow> error + node" where
  "backend_open st filename ds_name =
     (case containers st filename of
        None \<Rightarrow> Inl (OpenFailure filename ds_name)
      | Some c \<Rightarrow>
         if ds_name = [] then Inr Group
         else (case c ds_name of
                 None \<Rightarrow> Inl (OpenFailure filename ds_name)
               | Some d \<Rightarrow> Inr (Dataset d)))"

section \<open>Opening a dataset\<close>

text \<open>
  \<^verbatim>\<open>str.endswith\<close>, and the slice \<^verbatim>\<open>xs[-n:]\<close> of Python, which is the whole list
  for \<open>n = 0\<close> and for \<open>n\<close> beyond the length.
\<close>

definition endswith :: "string \<Rightarrow> string \<Rightarrow> bool" where
  "endswith s suffix = (length suffix \<le> length s \<and> drop (length s - length suffix) s = suffix)"

definition py_last_n :: "nat \<Rightarrow> 'a list \<Rightarrow> 'a list" where
  "py_last_n n xs = (if n = 0 then xs else drop (length xs - n) xs)"

text \<open>
  The steps that the three backend branches of \<^verbatim>\<open>open_ds\<close> share (lines 120--127,
  133--140, 146--153): resolve the metadata in the given order, take the trailing
  axes of the backend shape, build the Roi and the handle.
\<close>

definition open_with_order :: "dataset \<Rightarrow> string \<Rightarrow> error + array" where
  "open_with_order d order =
     and_then (read_voxel_size_offset d order) (\<lambda>(voxel_size, offset).
       let shape = py_last_n (length voxel_size) (ds_shape d) in
       and_then (coord_mul voxel_size shape) (\<lambda>size.
       Inr (mk_array d \<lparr>roi_begin = offset, roi_shape = size\<rparr> voxel_size None (ds_chunks d))))"

text \<open>
  \<^verbatim>\<open>open_ds(filename, ds_name, mode)\<close>, lines 87--171. What the backend returns is
  a dataset or a group. A group has neither \<^verbatim>\<open>order\<close> nor \<^verbatim>\<open>shape\<close>: in the Zarr
  branch the read of \<^verbatim>\<open>ds.order\<close> (line 120) raises, in the other two the read of
  \<^verbatim>\<open>ds.shape\<close> (line 58, reached because the group has no attributes). The JSON
  branch calls \<^verbatim>\<open>open_ds\<close> again on the descriptor's container, which may be a
  descriptor in turn; the first argument is the recursion depth that is left, and
  \<open>RecursionError\<close> the error of the interpreter when none is.
\<close>

definition open_node :: "node \<Rightarrow> string option \<Rightarrow> error + array" where
  "open_node nd order =
     (case nd of
        Group \<Rightarrow> Inl (AttributeError (case order of None \<Rightarrow> ''order'' | Some _ \<Rightarrow> ''shape''))
      | Dataset d \<Rightarrow> open_with_order d (case order of None \<Rightarrow> ds_order d | Some ord \<Rightarrow> ord))"

fun open_ds :: "nat \<Rightarrow> store \<Rightarrow> string \<Rightarrow> string \<Rightarrow> string \<Rightarrow> error + array" where
  "open_ds depth st filename ds_name mode =
     (if endswith filename ''.zarr'' \<or> endswith filename ''.zip'' then
        if endswith filename ''.zip'' \<and> mode \<noteq> ''r'' then
          Inl (AssertionError ''Only reading supported for zarr ZipStore'' [])
        else
          and_then (backend_open st filename ds_name) (\<lambda>nd. open_node nd None)
      else if endswith filename ''.n5'' then
        and_then (backend_open st filename ds_name) (\<lambda>nd. open_node nd (Some ''F''))
      else if endswith filename ''.h5'' \<or> endswith filename ''.hdf'' then
        and_then (backend_open st filename ds_name) (\<lambda>nd. open_node nd (Some ''C''))
      else if endswith filename ''.json'' then
        (case json_files st filename of
           None \<Rightarrow> Inl (FileNotFoundError filename)
         | Some spec \<Rightarrow>
            (case depth of
               0 \<Rightarrow> Inl RecursionError
             | Suc depth' \<Rightarrow>
                (case open_ds depth' st (spec_container spec) ds_name mode of
                   Inl e \<Rightarrow> Inl e
                 | Inr a \<Rightarrow>
                    Inr (mk_array (arr_data a)
                           \<lparr>roi_begin = spec_offset spec, roi_shape = spec_size spec\<rparr>
                           (arr_voxel_size a) (Some (roi_begin (arr_roi a))) (arr_chunk_shape a)))))
      else Inl (RuntimeError ''Unknown file format for %s'' [filename]))"

text \<open>The recursion limit of the interpreter (CPython's default).\<close>

definition recursion_limit :: nat where
  "recursion_limit = 1000"

section \<open>Provisioning a dataset\<close>

text \<open>
  The arguments of \<^verbatim>\<open>prepare_ds\<close>, lines 174--186. \<^verbatim>\<open>num_channels\<close>,
  \<^verbatim>\<open>write_roi\<close> and \<^verbatim>\<open>write_size\<close> are optional.
\<close>

record request =
  req_filename :: string
  req_ds_name :: string
  req_total_roi :: roi
  req_voxel_size :: coordinate
  req_dtype :: dtype
  req_write_roi :: "roi option"
  req_write_size :: "coordinate option"
  req_num_channels :: "int option"
  req_compressor :: compressor
  req_delete :: bool
  req_force_exact_write_size :: bool

text \<open>
  Lines 250--254: the write size in effect is \<^verbatim>\<open>write_size\<close>, or the shape of the
  deprecated \<^verbatim>\<open>write_roi\<close> when only that is given.
\<close>

definition write_size_in_effect :: "request \<Rightarrow> coordinate option" where
  "write_size_in_effect req =
     (case req_write_roi req of
        None \<Rightarrow> req_write_size req
      | Some wr \<Rightarrow>
         (case req_write_size req of None \<Rightarrow> Some (roi_shape wr) | Some ws \<Rightarrow> Some ws))"

text \<open>
  Lines 239--259: the alignment assertions, in the order of the source. The result is
  the write size in effect.
\<close>

definition check_alignment :: "request \<Rightarrow> error + coordinate option" where
  "check_alignment req =
     (let voxel_size = req_voxel_size req; total_roi = req_total_roi req in
      and_then (is_multiple_of (roi_shape total_roi) voxel_size) (\<lambda>shape_ok.
      if \<not> shape_ok then
        Inl (AssertionError ''The provided ROI shape is not a multiple of voxel_size'' [])
      else
      and_then (is_multiple_of (roi_begin total_roi) voxel_size) (\<lambda>begin_ok.
      if \<not> begin_ok then
        Inl (AssertionError ''The provided ROI offset is not a multiple of voxel_size'' [])
      else
        (case write_size_in_effect req of
           None \<Rightarrow> Inr None
         | Some ws \<Rightarrow>
            and_then (is_multiple_of ws voxel_size) (\<lambda>write_ok.
            if \<not> write_ok then
              Inl (AssertionError
                ''The provided write size ({write_size}) is not a multiple of voxel_size ({voxel_size})''
                [ws, voxel_size])
            else Inr (Some ws))))))"

text \<open>Lines 261--262, 264 and 266--273.\<close>

definition resolve_compressor :: "compressor \<Rightarrow> compressor" where
  "resolve_compressor c = (if c = Named ''default'' then Config ''gzip'' 5 else c)"

definition lstrip_slash :: "string \<Rightarrow> string" where
  "lstrip_slash s = dropWhile (\<lambda>c. c = CHR ''/'') s"

definition file_format_of :: "string \<Rightarrow> error + string" where
  "file_format_of filename =
     (if endswith filename ''.h5'' \<or> endswith filename ''.hdf'' then
        Inl (RuntimeError ''prepare_ds does not support HDF5 files'' [])
      else if endswith filename ''.zarr'' then Inr ''zarr''
      else if endswith filename ''.n5'' then Inr ''n5''
      else Inl (RuntimeError ''Unknown file format for %s'' [filename]))"

text \<open>Lines 275--281: the chunk shape in voxels, planned or taken as it is.\<close>

definition plan_chunk_shape :: "coordinate option \<Rightarrow> coordinate \<Rightarrow> bool \<Rightarrow> error + coordinate option" where
  "plan_chunk_shape write_size voxel_size force_exact_write_size =
     (case write_size of
        None \<Rightarrow> Inr None
      | Some ws \<Rightarrow>
         and_then (coord_truediv ws voxel_size) (\<lambda>block_shape.
         if \<not> force_exact_write_size then
           and_then (get_chunk_shape block_shape) (\<lambda>c. Inr (Some c))
         else Inr (Some block_shape)))"

text \<open>
  What lines 239--290 compute before the store is looked at: the dataset name
  without leading slashes, the write size in effect, the compressor, the file
  format, the chunk shape and the shape (both with the channel axis in front when
  \<^verbatim>\<open>num_channels\<close> is given) and \<^verbatim>\<open>voxel_size_with_channels\<close>.
\<close>

record plan =
  p_ds_name :: string
  p_write_size :: "coordinate option"
  p_compressor :: compressor
  p_file_format :: string
  p_chunk_shape :: "coordinate option"
  p_shape :: "int list"
  p_voxel_size_with_channels :: "coordinate option"

definition prepare_request :: "request \<Rightarrow> error + plan" where
  "prepare_request req =
     and_then (check_alignment req) (\<lambda>write_size.
     and_then (file_format_of (req_filename req)) (\<lambda>file_format.
     and_then (plan_chunk_shape write_size (req_voxel_size req) (req_force_exact_write_size req))
       (\<lambda>chunk_shape.
     and_then (coord_truediv (roi_shape (req_total_roi req)) (req_voxel_size req)) (\<lambda>shape.
       Inr \<lparr>p_ds_name = lstrip_slash (req_ds_name req),
            p_write_size = write_size,
            p_compressor = resolve_compressor (req_compressor req),
            p_file_format = file_format,
            p_chunk_shape =
              (case req_num_channels req of
                 None \<Rightarrow> chunk_shape
               | Some n \<Rightarrow> map_option (\<lambda>c. n # c) chunk_shape),
            p_shape = (case req_num_channels req of None \<Rightarrow> shape | Some n \<Rightarrow> n # shape),
            p_voxel_size_with_channels =
              (case req_num_channels req of
                 None \<Rightarrow> None
               | Some n \<Rightarrow> Some (1 # req_voxel_size req))\<rparr>))))"

text \<open>
  Lines 307--308: \<^verbatim>\<open>zarr.get_codec\<close> takes a codec configuration. A string is not
  one and raises; whether a configuration names a codec that is installed is the
  backend's affair, and the lookup of a configuration succeeds in this model.
\<close>

definition get_codec :: "compressor \<Rightarrow> error + compressor" where
  "get_codec c =
     (case c of
        Named s \<Rightarrow> Inl (ValueError s)
      | Config i l \<Rightarrow> Inr (Config i l)
      | NoCompressor \<Rightarrow> Inr NoCompressor)"

text \<open>
  Lines 298--327: the dataset does not exist. It is created with the planned shape,
  chunks, dtype and compressor (\<open>new_dataset\<close>, lines 310--320; without planned
  chunks the backend chooses them); the voxel size and the offset are written as
  attributes, reversed for N5; the chunk shape of the handle is the planned chunk
  shape divided by the voxel size (lines 322--326).
\<close>

definition new_dataset :: "store \<Rightarrow> request \<Rightarrow> plan \<Rightarrow> dataset" where
  "new_dataset st req p =
     \<lparr>ds_shape = p_shape p,
      ds_chunks =
        Some (case p_chunk_shape p of
                None \<Rightarrow> auto_chunks st (p_shape p) (req_dtype req)
              | Some c \<Rightarrow> c),
      ds_dtype = req_dtype req,
      ds_compressor = p_compressor p,
      ds_attrs =
        (if p_file_format p = ''zarr'' then
           no_attrs\<lparr>a_resolution := Some (req_voxel_size req),
                    a_offset := Some (roi_begin (req_total_roi req))\<rparr>
         else
           no_attrs\<lparr>a_resolution := Some (rev (req_voxel_size req)),
                    a_offset := Some (rev (roi_begin (req_total_roi req)))\<rparr>),
      ds_order = ''C''\<rparr>"

definition create_branch :: "request \<Rightarrow> plan \<Rightarrow> store \<Rightarrow> (error + array) \<times> store" where
  "create_branch req p st =
     (case get_codec (p_compressor p) of
        Inl e \<Rightarrow> (Inl e, st)
      | Inr codec \<Rightarrow>
         (let voxel_size = req_voxel_size req; total_roi = req_total_roi req;
              d = new_dataset st req p;
              st' = create_dataset st (req_filename req) (p_ds_name p) d
          in case p_chunk_shape p of
               None \<Rightarrow> (Inr (mk_array d total_roi voxel_size None None), st')
             | Some chunk_shape \<Rightarrow>
                (case coord_truediv chunk_shape
                        (case p_voxel_size_with_channels p of None \<Rightarrow> voxel_size | Some vc \<Rightarrow> vc) of
                   Inl e \<Rightarrow> (Inl e, st')
                 | Inr chunk_shape' \<Rightarrow>
                    (Inr (mk_array d total_roi voxel_size None (Some chunk_shape')), st'))))"

text \<open>
  Lines 333--353: the compatibility checks on an existing dataset, as the list of
  the fields found to differ, in the order of the checks (each is logged by the
  source); \<^verbatim>\<open>compatible\<close> is true when the list is empty.
\<close>

definition mismatches :: "request \<Rightarrow> plan \<Rightarrow> array \<Rightarrow> error + string list" where
  "mismatches req p a =
     and_then (array_shape a) (\<lambda>s.
     Inr ((if s \<noteq> p_shape p then [''Shapes''] else []) @
          (if arr_roi a \<noteq> req_total_roi req then [''ROIs''] else []) @
          (if arr_voxel_size a \<noteq> req_voxel_size req then [''Voxel sizes''] else []) @
          (if p_write_size p \<noteq> None \<and> ds_chunks (arr_data a) \<noteq> p_chunk_shape p
           then [''Chunk shapes''] else []) @
          (if req_dtype req \<noteq> array_dtype a then [''dtypes''] else [])))"

text \<open>
  Lines 365--374: the arguments of the recursive call. \<^verbatim>\<open>write_roi\<close>,
  \<^verbatim>\<open>delete\<close> and \<^verbatim>\<open>force_exact_write_size\<close> are not passed and take their
  defaults.
\<close>

definition retry_request :: "request \<Rightarrow> plan \<Rightarrow> request" where
  "retry_request req p =
     \<lparr>req_filename = req_filename req, req_ds_name = p_ds_name p,
      req_total_roi = req_total_roi req, req_voxel_size = req_voxel_size req,
      req_dtype = req_dtype req, req_write_roi = None, req_write_size = p_write_size p,
      req_num_channels = req_num_channels req, req_compressor = p_compressor p,
      req_delete = False, req_force_exact_write_size = False\<rparr>"

text \<open>
  \<^verbatim>\<open>prepare_ds\<close>, lines 174--378. The result is the handle or the exception, and
  the store as the call leaves it. The recursive call runs on a store from which the
  dataset has been removed, so it takes the creation branch.
\<close>

function prepare_ds :: "request \<Rightarrow> store \<Rightarrow> (error + array) \<times> store" where
  "prepare_ds req st =
     (case prepare_request req of
        Inl e \<Rightarrow> (Inl e, st)
      | Inr p \<Rightarrow>
         (let st1 = (if \<not> isdir st (req_filename req) then makedirs st (req_filename req) else st)
          in if \<not> isdir_ds st1 (req_filename req) (p_ds_name p) then create_branch req p st1
             else
               (case open_ds recursion_limit st1 (req_filename req) (p_ds_name p) ''a'' of
                  Inl e \<Rightarrow> (Inl e, st1)
                | Inr a \<Rightarrow>
                   (case mismatches req p a of
                      Inl e \<Rightarrow> (Inl e, st1)
                    | Inr differing \<Rightarrow>
                       if differing \<noteq> [] then
                         if \<not> req_delete req then
                           (Inl (RuntimeError
                              ''Existing dataset is not compatible, please manually delete the volume at %s/%s''
                              [req_filename req, p_ds_name p]), st1)
                         else
                           prepare_ds (retry_request req p)
                             (rmtree st1 (req_filename req) (p_ds_name p))
                       else (Inr a, st1)))))"
  by pat_completeness auto
termination
proof (relation "measure (\<lambda>(req, st). if isdir_ds st (req_filename req) (lstrip_slash (req_ds_name req)) then 1 else 0)")
  show "wf (measure (\<lambda>(req, st). if isdir_ds st (req_filename req) (lstrip_slash (req_ds_name req)) then 1 else 0))"
    by simp
next
  fix req :: request and st :: store and p :: plan and st1 a differing
  assume p: "prepare_request req = Inr p"
    and st1: "st1 = (if \<not> isdir st (req_filename req) then makedirs st (req_filename req) else st)"
    and ex: "\<not> \<not> isdir_ds st1 (req_filename req) (p_ds_name p)"
    and op: "open_ds recursion_limit st1 (req_filename req) (p_ds_name p) ''a'' = Inr a"
  have name: "p_ds_name p = lstrip_slash (req_ds_name req)"
    using p by (auto simp: prepare_request_def and_then_def split: sum.splits)
  have ne: "p_ds_name p \<noteq> []"
  proof
    assume e: "p_ds_name p = []"
    have "endswith (req_filename req) ''.zarr'' \<or> endswith (req_filename req) ''.n5''"
      using p
      by (auto simp: prepare_request_def and_then_def file_format_of_def
          split: sum.splits if_splits)
    then have "\<exists>err. open_ds recursion_limit st1 (req_filename req) [] ''a'' = Inl err"
      by (auto simp: backend_open_def open_node_def and_then_def split: option.splits)
    with op e show False by simp
  qed
  have "st1 = st"
    using st1 ex ne by (auto simp: isdir_def isdir_ds_def makedirs_def split: if_splits)
  then have before: "isdir_ds st (req_filename req) (lstrip_slash (req_ds_name req))"
    using ex name by simp
  have after: "\<not> isdir_ds (rmtree st1 (req_filename req) (p_ds_name p)) (req_filename req)
                   (lstrip_slash (p_ds_name p))"
    using ne by (simp add: name lstrip_slash_def isdir_ds_def rmtree_def split: option.splits)
  show "((retry_request req p, rmtree st1 (req_filename req) (p_ds_name p)), (req, st))
          \<in> measure (\<lambda>(req, st). if isdir_ds st (req_filename req) (lstrip_slash (req_ds_name req)) then 1 else 0)"
    using before after by (simp add: retry_request_def)
qed

text \<open>The equation of \<open>prepare_ds\<close> is unfolded by hand, one call at a time.\<close>

declare prepare_ds.simps [simp del]

section \<open>Notions used in the verification\<close>

text \<open>
  The loop invariant after the chunk counts \<open>1..m\<close> have been scanned: the best count
  is a divisor of \<open>b\<close> among them, the recorded difference is its own, no scanned
  divisor is closer to the target, and every earlier divisor is strictly farther.
\<close>

definition scan_inv :: "int \<Rightarrow> int \<Rightarrow> int \<Rightarrow> int option \<times> int \<Rightarrow> bool" where
  "scan_inv b t m acc =
     (\<exists>k. fst acc = Some k \<and> 1 \<le> k \<and> k \<le> m \<and> k dvd b \<and> snd acc = \<bar>b div k - t\<bar> \<and>
        (\<forall>j. 1 \<le> j \<and> j \<le> m \<and> j dvd b \<longrightarrow> \<bar>b div k - t\<bar> \<le> \<bar>b div j - t\<bar>) \<and>
        (\<forall>j. 1 \<le> j \<and> j < k \<and> j dvd b \<longrightarrow> \<bar>b div k - t\<bar> < \<bar>b div j - t\<bar>))"

text \<open>
  The quotient of two integers rounded towards zero, which \<^verbatim>\<open>int(a / b)\<close> is as long
  as the float holds the quotient exactly; and the snapping of one axis with it: the
  offset \<open>x\<close> plus half the voxel size \<open>y\<close>, divided by \<open>y\<close> and multiplied by it.
\<close>

definition trunc_div :: "int \<Rightarrow> int \<Rightarrow> int" where
  "trunc_div a b = sgn a * sgn b * (\<bar>a\<bar> div \<bar>b\<bar>)"


text \<open>
  The two errors of a division, a zero divisor and a quotient too large for a float,
  are Python's arithmetic errors; \<open>division_class\<close> identifies them and leaves every
  other error as it is.
\<close>

definition division_class :: "error \<Rightarrow> error" where
  "division_class e = (if e = OverflowError then ZeroDivisionError else e)"

text \<open>
  An attribute set uses the transform descriptor when the voxel size or the offset
  is read from it: the descriptor is present and no other voxel size source is, or
  no \<^verbatim>\<open>offset\<close> attribute is. It uses only the transform descriptor when both vectors
  are read from it and its ordering is one of the two backend orders.
\<close>

definition uses_transform :: "attrs \<Rightarrow> bool" where
  "uses_transform at =
     (a_transform at \<noteq> None \<and>
      ((a_resolution at = None \<and> a_scale at = None \<and> a_pixelResolution at = None) \<or>
       a_offset at = None))"

definition only_transform :: "attrs \<Rightarrow> bool" where
  "only_transform at =
     (a_resolution at = None \<and> a_scale at = None \<and> a_pixelResolution at = None \<and>
      a_offset at = None \<and>
      (case a_transform at of
         None \<Rightarrow> False
       | Some t \<Rightarrow> transform_order t = ''C'' \<or> transform_order t = ''F''))"

definition reversed :: "coordinate \<times> coordinate \<Rightarrow> coordinate \<times> coordinate" where
  "reversed r = (rev (fst r), rev (snd r))"

text \<open>
  Two datasets with the same vectors, once in a transform descriptor, once direct;
  and a dataset whose offset divided by its voxel size overflows on the first axis
  and has a zero divisor on the second.
\<close>

definition transform_ds :: dataset where
  "transform_ds =
     \<lparr>ds_shape = [5, 5], ds_chunks = Some [5, 5], ds_dtype = UInt8,
      ds_compressor = NoCompressor,
      ds_attrs = no_attrs\<lparr>a_transform :=
        Some \<lparr>t_ordering = None, t_scale = Some [1, 2], t_translate = Some [3, 4]\<rparr>\<rparr>,
      ds_order = ''C''\<rparr>"

definition resolution_ds :: dataset where
  "resolution_ds =
     \<lparr>ds_shape = [5, 5], ds_chunks = Some [5, 5], ds_dtype = UInt8,
      ds_compressor = NoCompressor,
      ds_attrs = no_attrs\<lparr>a_resolution := Some [1, 2], a_offset := Some [3, 4]\<rparr>,
      ds_order = ''C''\<rparr>"

definition overflow_ds :: dataset where
  "overflow_ds =
     \<lparr>ds_shape = [5, 5], ds_chunks = Some [5, 5], ds_dtype = UInt8,
      ds_compressor = NoCompressor,
      ds_attrs = no_attrs\<lparr>a_resolution := Some [1, 0], a_offset := Some [2 ^ 1024, 1]\<rparr>,
      ds_order = ''C''\<rparr>"

text \<open>
  The sources of the two vectors in the spec's words: the voxel size is the first of
  \<^verbatim>\<open>resolution\<close>, \<^verbatim>\<open>scale\<close>, \<^verbatim>\<open>pixelResolution.dimensions\<close> and
  \<^verbatim>\<open>transform.scale\<close> that is present; the offset is \<^verbatim>\<open>offset\<close>, else
  \<^verbatim>\<open>transform.translate\<close>.
\<close>

definition voxel_size_source :: "attrs \<Rightarrow> coordinate option" where
  "voxel_size_source at =
     (case a_resolution at of
        Some r \<Rightarrow> Some r
      | None \<Rightarrow>
         (case a_scale at of
            Some s \<Rightarrow> Some s
          | None \<Rightarrow>
             (case a_pixelResolution at of
                Some p \<Rightarrow> p
              | None \<Rightarrow> (case a_transform at of Some t \<Rightarrow> t_scale t | None \<Rightarrow> None))))"

definition offset_source :: "attrs \<Rightarrow> coordinate option" where
  "offset_source at =
     (case a_offset at of
        Some off \<Rightarrow> Some off
      | None \<Rightarrow> (case a_transform at of Some t \<Rightarrow> t_translate t | None \<Rightarrow> None))"

text \<open>
  A vector is an exact multiple of another when they have the same dimensionality
  and every component of the second divides the component of the first.
\<close>

definition multiple_of :: "coordinate \<Rightarrow> coordinate \<Rightarrow> bool" where
  "multiple_of a b = list_all2 (\<lambda>x y. y dvd x) a b"

text \<open>Two datasets whose voxel size and offset sources differ in length.\<close>

definition mismatch_direct_ds :: dataset where
  "mismatch_direct_ds =
     \<lparr>ds_shape = [5, 5, 5], ds_chunks = Some [5, 5, 5], ds_dtype = UInt8,
      ds_compressor = NoCompressor,
      ds_attrs = no_attrs\<lparr>a_resolution := Some [1, 1, 1], a_offset := Some [0, 0]\<rparr>,
      ds_order = ''C''\<rparr>"

definition mismatch_transform_ds :: dataset where
  "mismatch_transform_ds =
     \<lparr>ds_shape = [5, 5, 5], ds_chunks = Some [5, 5, 5], ds_dtype = UInt8,
      ds_compressor = NoCompressor,
      ds_attrs = no_attrs\<lparr>a_transform :=
        Some \<lparr>t_ordering = None, t_scale = Some [1, 1, 1], t_translate = Some [0, 0]\<rparr>\<rparr>,
      ds_order = ''C''\<rparr>"

text \<open>
  The store is faithful to the file system for plain names: a dataset name that is
  one path component of letters, digits, \<^verbatim>\<open>_\<close> and \<^verbatim>\<open>-\<close> (no group path, no
  \<^verbatim>\<open>.\<close> or \<^verbatim>\<open>..\<close>, not the empty name), and a container path that is one such
  component with dots, like \<^verbatim>\<open>a.zarr\<close>. The codecs that every installation of the
  backend knows are the default, none, and gzip with a level from 0 to 9.
\<close>

definition name_char :: "char \<Rightarrow> bool" where
  "name_char c =
     (c \<in> set ''abcdefghijklmnopqrstuvwxyzABCDEFGHIJKLMNOPQRSTUVWXYZ0123456789_-'')"

definition plain_name :: "string \<Rightarrow> bool" where
  "plain_name s = (s \<noteq> [] \<and> length s \<le> 255 \<and> list_all name_char s)"

definition plain_path :: "string \<Rightarrow> bool" where
  "plain_path s =
     (s \<noteq> [] \<and> length s \<le> 255 \<and> list_all (\<lambda>c. name_char c \<or> c = CHR ''.'') s)"

definition known_compressor :: "compressor \<Rightarrow> bool" where
  "known_compressor c =
     (case c of
        Named s \<Rightarrow> s = ''default''
      | Config i l \<Rightarrow> i = ''gzip'' \<and> 0 \<le> l \<and> l \<le> 9
      | NoCompressor \<Rightarrow> True)"

text \<open>
  A request is well formed when the container path and the dataset name (without
  its leading slashes) are plain, the compressor is known, and its geometry is that
  of the data model, with numbers that a float holds exactly: a voxel size of at
  least one axis with positive components; a total Roi of the same dimensionality,
  with an offset below \<open>2 ^ 53\<close> in absolute value and a positive shape below
  \<open>2 ^ 53\<close>; a write size in effect (if any) of the same dimensionality with positive
  components below \<open>2 ^ 53\<close>; and a number of channels (if any) from 1 to below
  \<open>2 ^ 53\<close>. It is aligned when the shape and the offset of the total Roi and the
  write size in effect are exact multiples of the voxel size. A container path is
  provisionable when it names a Zarr or an N5 container.
\<close>

definition well_formed :: "request \<Rightarrow> bool" where
  "well_formed req =
     (plain_path (req_filename req) \<and>
      plain_name (lstrip_slash (req_ds_name req)) \<and>
      known_compressor (req_compressor req) \<and>
      req_voxel_size req \<noteq> [] \<and>
      list_all (\<lambda>x. 0 < x) (req_voxel_size req) \<and>
      length (roi_begin (req_total_roi req)) = length (req_voxel_size req) \<and>
      list_all (\<lambda>x. \<bar>x\<bar> < 2 ^ 53) (roi_begin (req_total_roi req)) \<and>
      length (roi_shape (req_total_roi req)) = length (req_voxel_size req) \<and>
      list_all (\<lambda>x. 0 < x \<and> x < 2 ^ 53) (roi_shape (req_total_roi req)) \<and>
      (case write_size_in_effect req of
         None \<Rightarrow> True
       | Some ws \<Rightarrow>
          length ws = length (req_voxel_size req) \<and> list_all (\<lambda>x. 0 < x \<and> x < 2 ^ 53) ws) \<and>
      (case req_num_channels req of
         None \<Rightarrow> True
       | Some n \<Rightarrow> 0 < n \<and> n < 2 ^ 53))"

definition aligned :: "request \<Rightarrow> bool" where
  "aligned req =
     (multiple_of (roi_shape (req_total_roi req)) (req_voxel_size req) \<and>
      multiple_of (roi_begin (req_total_roi req)) (req_voxel_size req) \<and>
      (case write_size_in_effect req of
         None \<Rightarrow> True
       | Some ws \<Rightarrow> multiple_of ws (req_voxel_size req)))"

definition provisionable :: "string \<Rightarrow> bool" where
  "provisionable filename = (endswith filename ''.zarr'' \<or> endswith filename ''.n5'')"

text \<open>
  The message of the error that \<^verbatim>\<open>prepare_ds\<close> raises for an incompatible dataset
  (lines 357--360), with the two values formatted into it.
\<close>

definition incompatible_error :: "string \<Rightarrow> string \<Rightarrow> error" where
  "incompatible_error filename ds_name =
     RuntimeError
       ''Existing dataset is not compatible, please manually delete the volume at %s/%s''
       [filename, ds_name]"

text \<open>
  An empty store, whose backend chooses one chunk for a dataset created without
  chunks, and a request on it: two spatial axes with voxel size \<open>(2, 3)\<close>, three
  channels, and a write size of \<open>(4, 6)\<close>.
\<close>

definition empty_store :: store where
  "empty_store =
     \<lparr>containers = Map.empty, json_files = Map.empty, auto_chunks = (\<lambda>shape dt. shape)\<rparr>"

definition example_request :: request where
  "example_request =
     \<lparr>req_filename = ''a.zarr'', req_ds_name = ''/x'',
      req_total_roi = \<lparr>roi_begin = [-4, 6], roi_shape = [8, 12]\<rparr>, req_voxel_size = [2, 3],
      req_dtype = UInt8, req_write_roi = None, req_write_size = Some [4, 6],
      req_num_channels = Some 3, req_compressor = Named ''default'',
      req_delete = False, req_force_exact_write_size = False\<rparr>"

text \<open>
  The store after the example request has been served, with the plan, the dataset
  and the handle of a later open; and what a request finds to differ in an existing
  dataset (lines 331--353, up to the checks).
\<close>

definition provisioned_store :: store where
  "provisioned_store = snd (prepare_ds example_request empty_store)"

definition example_plan :: plan where
  "example_plan =
     \<lparr>p_ds_name = ''x'', p_write_size = Some [4, 6], p_compressor = Config ''gzip'' 5,
      p_file_format = ''zarr'', p_chunk_shape = Some [3, 2, 2], p_shape = [3, 4, 4],
      p_voxel_size_with_channels = Some [1, 2, 3]\<rparr>"

definition example_dataset :: dataset where
  "example_dataset =
     \<lparr>ds_shape = [3, 4, 4], ds_chunks = Some [3, 2, 2], ds_dtype = UInt8,
      ds_compressor = Config ''gzip'' 5,
      ds_attrs = no_attrs\<lparr>a_resolution := Some [2, 3], a_offset := Some [-4, 6]\<rparr>,
      ds_order = ''C''\<rparr>"

definition example_handle :: array where
  "example_handle =
     \<lparr>arr_data = example_dataset,
      arr_roi = \<lparr>roi_begin = [-4, 6], roi_shape = [8, 12]\<rparr>,
      arr_voxel_size = [2, 3], arr_data_offset = [-4, 6], arr_chunk_shape = Some [3, 2, 2]\<rparr>"

definition differing_fields :: "request \<Rightarrow> store \<Rightarrow> error + string list" where
  "differing_fields req st =
     and_then (prepare_request req) (\<lambda>p.
     and_then (open_ds recursion_limit st (req_filename req) (p_ds_name p) ''a'') (\<lambda>a.
     mismatches req p a))"

text \<open>The example request with another dtype, and with another total Roi.\<close>

definition retyped_request :: request where
  "retyped_request = example_request\<lparr>req_dtype := Float32\<rparr>"

definition resized_request :: request where
  "resized_request = example_request\<lparr>req_total_roi := \<lparr>roi_begin = [-4, 6], roi_shape = [16, 12]\<rparr>\<rparr>"

section \<open>Verification of the chunk geometry planner\<close>

lemma valid_count_iff_dvd:
  assumes "1 \<le> k" "k \<le> b"
  shows "((b div k) * k) mod b = 0 \<longleftrightarrow> k dvd (b::int)"
proof
  assume "k dvd b"
  then show "((b div k) * k) mod b = 0" by simp
next
  assume h: "((b div k) * k) mod b = 0"
  have r: "0 \<le> b mod k" "b mod k < k" using assms by simp_all
  have e: "(b div k) * k = b - b mod k"
    by (simp add: minus_mod_eq_div_mult)
  show "k dvd b"
  proof (cases "b mod k = 0")
    case True
    then show ?thesis by (simp add: dvd_eq_mod_eq_0)
  next
    case False
    then have p: "0 < b - b mod k" "b - b mod k < b" using r assms by linarith+
    then have "(b - b mod k) mod b = b - b mod k"
      by (intro mod_pos_pos_trivial) linarith+
    moreover have "(b - b mod k) mod b = 0" using h unfolding e .
    ultimately show ?thesis using p(1) by linarith
  qed
qed

lemma chunk_scan_Suc:
  "0 \<le> m \<Longrightarrow> chunk_scan b t (m + 1) = chunk_scan_step b t (chunk_scan b t m) (m + 1)"
proof -
  assume "0 \<le> m"
  then have "[1..m + 1] = [1..m] @ [m + 1]"
    using upto_rec2 [of 1 "m + 1"] by simp
  then show ?thesis by (simp add: chunk_scan_def)
qed

lemma chunk_scan_first:
  assumes "1 \<le> b"
  shows "scan_inv b t 1 (chunk_scan b t 1)"
proof -
  have "chunk_scan b t 1 = (Some 1, \<bar>b - t\<bar>)"
    using assms by (simp add: chunk_scan_def chunk_scan_step_def)
  moreover have "\<And>j::int. 1 \<le> j \<and> j \<le> 1 \<Longrightarrow> \<bar>b div 1 - t\<bar> \<le> \<bar>b div j - t\<bar>"
  proof -
    fix j :: int assume "1 \<le> j \<and> j \<le> 1"
    then have "j = 1" by linarith
    then show "\<bar>b div 1 - t\<bar> \<le> \<bar>b div j - t\<bar>" by simp
  qed
  ultimately show ?thesis
    unfolding scan_inv_def by (intro exI [of _ 1]) simp
qed

lemma chunk_scan_step_inv:
  assumes inv: "scan_inv b t m acc" and m: "1 \<le> m" "m < b"
  shows "scan_inv b t (m + 1) (chunk_scan_step b t acc (m + 1))"
proof -
  from inv obtain k where k: "fst acc = Some k" "1 \<le> k" "k \<le> m" "k dvd b"
    "snd acc = \<bar>b div k - t\<bar>"
    "\<forall>j. 1 \<le> j \<and> j \<le> m \<and> j dvd b \<longrightarrow> \<bar>b div k - t\<bar> \<le> \<bar>b div j - t\<bar>"
    "\<forall>j. 1 \<le> j \<and> j < k \<and> j dvd b \<longrightarrow> \<bar>b div k - t\<bar> < \<bar>b div j - t\<bar>"
    unfolding scan_inv_def by blast
  have acc: "acc = (Some k, \<bar>b div k - t\<bar>)" using k(1,5) by (cases acc) simp
  have valid: "((b div (m + 1)) * (m + 1)) mod b = 0 \<longleftrightarrow> (m + 1) dvd b"
    using valid_count_iff_dvd [of "m + 1" b] m by simp
  have le_cases: "\<And>j. j \<le> m + 1 \<Longrightarrow> j \<le> m \<or> j = m + 1" by linarith
  show ?thesis
  proof (cases "(m + 1) dvd b \<and> \<bar>b div (m + 1) - t\<bar> < \<bar>b div k - t\<bar>")
    case True
    then have step: "chunk_scan_step b t acc (m + 1) = (Some (m + 1), \<bar>b div (m + 1) - t\<bar>)"
      using valid by (simp add: chunk_scan_step_def acc Let_def)
    have a: "\<forall>j. 1 \<le> j \<and> j \<le> m + 1 \<and> j dvd b \<longrightarrow> \<bar>b div (m + 1) - t\<bar> \<le> \<bar>b div j - t\<bar>"
    proof (intro allI impI)
      fix j assume j: "1 \<le> j \<and> j \<le> m + 1 \<and> j dvd b"
      then consider "j \<le> m" | "j = m + 1" using le_cases by blast
      then show "\<bar>b div (m + 1) - t\<bar> \<le> \<bar>b div j - t\<bar>"
      proof cases
        case 1
        then have "\<bar>b div k - t\<bar> \<le> \<bar>b div j - t\<bar>" using k(6) j by blast
        with True show ?thesis by linarith
      next
        case 2
        then show ?thesis by simp
      qed
    qed
    have b: "\<forall>j. 1 \<le> j \<and> j < m + 1 \<and> j dvd b \<longrightarrow> \<bar>b div (m + 1) - t\<bar> < \<bar>b div j - t\<bar>"
    proof (intro allI impI)
      fix j assume j: "1 \<le> j \<and> j < m + 1 \<and> j dvd b"
      then have "\<bar>b div k - t\<bar> \<le> \<bar>b div j - t\<bar>" using k(6) by simp
      with True show "\<bar>b div (m + 1) - t\<bar> < \<bar>b div j - t\<bar>" by linarith
    qed
    show ?thesis
      unfolding scan_inv_def step using True m a b by auto
  next
    case False
    then have step: "chunk_scan_step b t acc (m + 1) = acc"
      using valid by (auto simp: chunk_scan_step_def acc Let_def)
    have a: "\<forall>j. 1 \<le> j \<and> j \<le> m + 1 \<and> j dvd b \<longrightarrow> \<bar>b div k - t\<bar> \<le> \<bar>b div j - t\<bar>"
    proof (intro allI impI)
      fix j assume j: "1 \<le> j \<and> j \<le> m + 1 \<and> j dvd b"
      then consider "j \<le> m" | "j = m + 1" using le_cases by blast
      then show "\<bar>b div k - t\<bar> \<le> \<bar>b div j - t\<bar>"
      proof cases
        case 1
        then show ?thesis using k(6) j by blast
      next
        case 2
        then show ?thesis using False j by auto
      qed
    qed
    have "scan_inv b t (m + 1) acc"
      unfolding scan_inv_def acc using k(2,3,4,7) a by auto
    with step show ?thesis by simp
  qed
qed

lemma chunk_scan_inv:
  "1 \<le> b \<Longrightarrow> Suc n \<le> nat b \<Longrightarrow> scan_inv b t (int (Suc n)) (chunk_scan b t (int (Suc n)))"
proof (induction n)
  case 0
  then show ?case using chunk_scan_first [of b t] by simp
next
  case (Suc n)
  then have ih: "scan_inv b t (int (Suc n)) (chunk_scan b t (int (Suc n)))" by simp
  have m: "1 \<le> int (Suc n)" "int (Suc n) < b" using Suc.prems by linarith+
  have "chunk_scan b t (int (Suc n) + 1) =
        chunk_scan_step b t (chunk_scan b t (int (Suc n))) (int (Suc n) + 1)"
    by (rule chunk_scan_Suc) simp
  moreover have "int (Suc (Suc n)) = int (Suc n) + 1" by simp
  ultimately show ?case
    using chunk_scan_step_inv [OF ih m] by simp
qed

lemma chunk_scan_full:
  assumes "1 \<le> b"
  shows "scan_inv b t b (chunk_scan b t b)"
proof -
  obtain n where n: "nat b = Suc n" using assms by (cases "nat b") auto
  then have "int (Suc n) = b" using assms by linarith
  with chunk_scan_inv [of b n t] assms n show ?thesis by simp
qed


lemma get_chunk_size_dim_best:
  assumes "1 \<le> b"
  obtains k where "get_chunk_size_dim b t = Inr (b div k)" "1 \<le> k" "k \<le> b" "k dvd b"
    "\<forall>j. 1 \<le> j \<and> j dvd b \<longrightarrow> \<bar>b div k - t\<bar> \<le> \<bar>b div j - t\<bar>"
    "\<forall>j. 1 \<le> j \<and> j < k \<and> j dvd b \<longrightarrow> \<bar>b div k - t\<bar> < \<bar>b div j - t\<bar>"
proof -
  from chunk_scan_full [OF assms, of t] obtain k where
    k: "fst (chunk_scan b t b) = Some k" "1 \<le> k" "k \<le> b" "k dvd b"
      "\<forall>j. 1 \<le> j \<and> j \<le> b \<and> j dvd b \<longrightarrow> \<bar>b div k - t\<bar> \<le> \<bar>b div j - t\<bar>"
      "\<forall>j. 1 \<le> j \<and> j < k \<and> j dvd b \<longrightarrow> \<bar>b div k - t\<bar> < \<bar>b div j - t\<bar>"
    unfolding scan_inv_def by blast
  have le: "\<And>j. j dvd b \<Longrightarrow> j \<le> b" using assms by (simp add: zdvd_imp_le)
  have "get_chunk_size_dim b t = Inr (b div k)"
    by (simp add: get_chunk_size_dim_def k(1))
  moreover have "\<forall>j. 1 \<le> j \<and> j dvd b \<longrightarrow> \<bar>b div k - t\<bar> \<le> \<bar>b div j - t\<bar>"
    using k(5) le by blast
  ultimately show ?thesis using that k(2,3,4,6) by blast
qed

lemma div_by_divisor_bounds:
  assumes "1 \<le> (b::int)" "1 \<le> k" "k dvd b"
  shows "b div k dvd b" "1 \<le> b div k" "b div k \<le> b"
proof -
  from assms(3) obtain c where c: "b = k * c" by (auto simp: dvd_def)
  then have q: "b div k = c" using assms(2) by simp
  show "b div k dvd b" unfolding q using c by simp
  have "0 < k * c" "0 < k" using assms(1,2) c by linarith+
  then have "0 < c" by (rule zero_less_mult_pos)
  then show "1 \<le> b div k" unfolding q by simp
  have "1 * c \<le> k * c" using assms(2) \<open>0 < c\<close> by (intro mult_right_mono) simp_all
  then show "b div k \<le> b" unfolding q using c by simp
qed

lemma get_chunk_size_dim_bounds:
  assumes b: "1 \<le> b"
  shows "\<exists>c. get_chunk_size_dim b t = Inr c \<and> 1 \<le> c \<and> c \<le> b"
proof -
  from get_chunk_size_dim_best [OF b, of t] obtain k where
    "get_chunk_size_dim b t = Inr (b div k)" "1 \<le> k" "k dvd b" by blast
  then show ?thesis using div_by_divisor_bounds(2,3) [OF b] by blast
qed

lemma get_chunk_shape_bounds:
  "list_all (\<lambda>b. 1 \<le> b \<and> b < N) bs \<Longrightarrow>
     \<exists>cs. get_chunk_shape bs = Inr cs \<and> length cs = length bs \<and>
          list_all (\<lambda>c. 1 \<le> c \<and> c < N) cs"
proof (induction bs)
  case Nil
  then show ?case by simp
next
  case (Cons b bs)
  then obtain cs where cs: "get_chunk_shape bs = Inr cs" "length cs = length bs"
    "list_all (\<lambda>c. 1 \<le> c \<and> c < N) cs" by auto
  from Cons.prems have b: "1 \<le> b" "b < N" by simp_all
  from get_chunk_size_dim_bounds [OF b(1), of 256] obtain c where
    c: "get_chunk_size_dim b 256 = Inr c" "1 \<le> c" "c \<le> b" by blast
  then have "c < N" using b(2) by simp
  then show ?case using cs c by simp
qed

text \<open>
  Claim C3. For every block length \<open>b \<ge> 1\<close> and the default target chunk length 256,
  \<^verbatim>\<open>get_chunk_size_dim\<close> returns (it does not raise) a chunk length that evenly
  divides \<open>b\<close>.
\<close>

theorem get_chunk_size_dim_divides:
  "1 \<le> b \<Longrightarrow> \<exists>c. get_chunk_size_dim b 256 = Inr c \<and> c dvd b"
proof -
  assume b: "1 \<le> b"
  from get_chunk_size_dim_best [OF b, of 256] obtain k where
    "get_chunk_size_dim b 256 = Inr (b div k)" "1 \<le> k" "k dvd b" by blast
  then show ?thesis using div_by_divisor_bounds(1) [OF b] by blast
qed

theorem get_chunk_size_dim_divides_witness:
  "(1::int) \<le> 12 \<and> (\<exists>c. get_chunk_size_dim 12 256 = Inr c \<and> c dvd 12)"
  using get_chunk_size_dim_divides [of 12] by simp


text \<open>
  Claim C9. For every block length \<open>b \<ge> 1\<close> and every target, the chunk count
  \<open>k = 1\<close> passes the validity test and is taken by the first iteration, so
  \<^verbatim>\<open>best_k\<close> is set when the loop ends; \<^verbatim>\<open>get_chunk_size_dim\<close> returns a chunk
  length between 1 and \<open>b\<close> and does not raise.
\<close>

theorem get_chunk_size_dim_total:
  "1 \<le> b \<Longrightarrow>
     ((b div 1) * 1) mod b = 0 \<and>
     fst (chunk_scan b t 1) = Some 1 \<and>
     fst (chunk_scan b t b) \<noteq> None \<and>
     (\<exists>c. get_chunk_size_dim b t = Inr c \<and> 1 \<le> c \<and> c \<le> b)"
proof -
  assume b: "1 \<le> b"
  have "fst (chunk_scan b t 1) = Some 1"
    using b by (simp add: chunk_scan_def chunk_scan_step_def)
  moreover have "fst (chunk_scan b t b) \<noteq> None"
    using chunk_scan_full [OF b, of t] unfolding scan_inv_def by auto
  ultimately show ?thesis using get_chunk_size_dim_bounds [OF b, of t] by simp
qed

theorem get_chunk_size_dim_total_witness:
  "(1::int) \<le> 7 \<and> ((7 div 1) * 1) mod 7 = (0::int) \<and>
     fst (chunk_scan 7 3 1) = Some 1 \<and>
     fst (chunk_scan 7 3 7) \<noteq> None \<and>
     (\<exists>c. get_chunk_size_dim 7 3 = Inr c \<and> 1 \<le> c \<and> c \<le> 7)"
  using get_chunk_size_dim_total [of 7 3] by simp

text \<open>
  Claim C4. For every block length \<open>b \<ge> 1\<close> and target \<open>t\<close>,
  \<^verbatim>\<open>get_chunk_size_dim\<close> returns \<open>b div k\<close> for a chunk count \<open>k\<close> that divides \<open>b\<close>
  exactly and minimises \<open>\<bar>b div k - t\<bar>\<close> among the divisors of \<open>b\<close>; among equally close
  divisors it is the smallest chunk count, hence the largest chunk length. For
  \<open>b = 100\<close>, \<open>t = 256\<close> the result is 100, and for \<open>b = 1024\<close>, \<open>t = 256\<close> it is 256.
\<close>

theorem get_chunk_size_dim_closest:
  "1 \<le> b \<Longrightarrow>
     (\<exists>k. get_chunk_size_dim b t = Inr (b div k) \<and> 1 \<le> k \<and> k \<le> b \<and> k dvd b \<and>
        (\<forall>j. 1 \<le> j \<and> j dvd b \<longrightarrow> \<bar>b div k - t\<bar> \<le> \<bar>b div j - t\<bar>) \<and>
        (\<forall>j. 1 \<le> j \<and> j dvd b \<and> \<bar>b div j - t\<bar> = \<bar>b div k - t\<bar> \<longrightarrow> k \<le> j \<and> b div j \<le> b div k)) \<and>
     get_chunk_size_dim 100 256 = Inr 100 \<and>
     get_chunk_size_dim 1024 256 = Inr 256"
proof -
  assume b: "1 \<le> b"
  from get_chunk_size_dim_best [OF b, of t] obtain k where k:
    "get_chunk_size_dim b t = Inr (b div k)" "1 \<le> k" "k \<le> b" "k dvd b"
    "\<forall>j. 1 \<le> j \<and> j dvd b \<longrightarrow> \<bar>b div k - t\<bar> \<le> \<bar>b div j - t\<bar>"
    "\<forall>j. 1 \<le> j \<and> j < k \<and> j dvd b \<longrightarrow> \<bar>b div k - t\<bar> < \<bar>b div j - t\<bar>"
    by blast
  have tie: "\<forall>j. 1 \<le> j \<and> j dvd b \<and> \<bar>b div j - t\<bar> = \<bar>b div k - t\<bar> \<longrightarrow> k \<le> j \<and> b div j \<le> b div k"
  proof (intro allI impI)
    fix j assume j: "1 \<le> j \<and> j dvd b \<and> \<bar>b div j - t\<bar> = \<bar>b div k - t\<bar>"
    have kj: "k \<le> j"
    proof (rule ccontr)
      assume "\<not> k \<le> j"
      then have "j < k" by simp
      with k(6) j have "\<bar>b div k - t\<bar> < \<bar>b div j - t\<bar>" by blast
      with j show False by simp
    qed
    moreover have "b div j \<le> b div k"
      using kj k(2) b by (intro zdiv_mono2) linarith+
    ultimately show "k \<le> j \<and> b div j \<le> b div k" by simp
  qed
  have "get_chunk_size_dim 100 256 = Inr 100" by code_simp
  moreover have "get_chunk_size_dim 1024 256 = Inr 256" by code_simp
  ultimately show ?thesis using k(1,2,3,4,5) tie by blast
qed

theorem get_chunk_size_dim_closest_witness:
  "(1::int) \<le> 12 \<and>
     (\<exists>k. get_chunk_size_dim 12 5 = Inr (12 div k) \<and> 1 \<le> k \<and> k \<le> 12 \<and> k dvd 12 \<and>
        (\<forall>j. 1 \<le> j \<and> j dvd 12 \<longrightarrow> \<bar>12 div k - 5\<bar> \<le> \<bar>12 div j - (5::int)\<bar>) \<and>
        (\<forall>j. 1 \<le> j \<and> j dvd 12 \<and> \<bar>12 div j - 5\<bar> = \<bar>12 div k - (5::int)\<bar> \<longrightarrow> k \<le> j \<and> 12 div j \<le> 12 div k)) \<and>
     get_chunk_size_dim 100 256 = Inr 100 \<and>
     get_chunk_size_dim 1024 256 = Inr 256 \<and>
     get_chunk_size_dim 12 5 = Inr 6"
proof -
  have "get_chunk_size_dim 12 5 = Inr 6" by code_simp
  then show ?thesis using get_chunk_size_dim_closest [of 12 5] by simp
qed

section \<open>Verification of the division\<close>

lemma and_then_simps [simp]:
  "and_then (Inl e) f = Inl e"
  "and_then (Inr x) f = f x"
  by (simp_all add: and_then_def)

lemma scale_up_to_bound:
  "0 < n \<Longrightarrow> 0 < k \<Longrightarrow> 0 < scale_up_to n d k \<and> d * 2 ^ 52 \<le> n * scale_up_to n d k"
proof (induction n d k rule: scale_up_to.induct)
  case (1 n d k)
  show ?case
  proof (cases "d * 2 ^ 52 \<le> n * k")
    case True
    then have "scale_up_to n d k = k" by (simp add: scale_up_to.simps [of n d k])
    then show ?thesis using True "1.prems" by simp
  next
    case False
    then have e: "scale_up_to n d k = scale_up_to n d (2 * k)"
      using "1.prems" by (simp add: scale_up_to.simps [of n d k])
    from "1.IH" False "1.prems"
    have "0 < scale_up_to n d (2 * k) \<and> d * 2 ^ 52 \<le> n * scale_up_to n d (2 * k)" by simp
    then show ?thesis by (simp add: e)
  qed
qed

lemma round_half_even_cases:
  assumes "0 < y"
  shows "round_half_even x y = x div y \<or>
         (round_half_even x y = x div y + 1 \<and> y \<le> 2 * (x mod y))"
  by (auto simp: round_half_even_def Let_def)

lemma succ_div_same:
  fixes m k :: int
  assumes "0 < k" "m mod k \<noteq> k - 1"
  shows "(m + 1) div k = m div k"
proof -
  have r: "0 \<le> m mod k" "m mod k < k" using assms(1) by simp_all
  have "m + 1 = (m div k) * k + (m mod k + 1)" by simp
  moreover have "0 \<le> m mod k + 1" "m mod k + 1 < k" using r assms(2) by linarith+
  ultimately show ?thesis
    by (metis div_mult_self3 div_pos_pos_trivial add.commute add.right_neutral assms(1)
        less_irrefl)
qed

text \<open>
  Below \<open>2 ^ 53\<close> the float holds the dividend exactly, and the rounded quotient
  never reaches the next integer: \<^verbatim>\<open>int(n / d)\<close> is the quotient rounded down.
\<close>

lemma float_quotient_exact:
  assumes n: "0 \<le> n" "n < 2 ^ 53" and d: "0 < d"
  shows "float_quotient n d = n div d"
proof (cases "n = 0")
  case True
  have "scale_up_to 0 d 1 = 1" by (simp add: scale_up_to.simps [of 0 d 1])
  then show ?thesis using True d by (simp add: float_quotient_def round_half_even_def)
next
  case False
  then have npos: "0 < n" using n by simp
  define K where "K = scale_up_to n d 1"
  define X where "X = n * K"
  define M where "M = X div d"
  define R where "R = X mod d"
  have K: "0 < K" and low: "d * 2 ^ 52 \<le> n * K"
    using scale_up_to_bound [OF npos, of 1 d] by (simp_all add: K_def)
  have R: "0 \<le> R" "R < d" using d by (simp_all add: R_def)
  have X: "X = d * M + R" by (simp add: M_def R_def)
  have "1 * (2 ^ 53 :: int) \<le> d * 2 ^ 53"
    using d by (intro mult_right_mono) simp_all
  then have branch: "n < d * 2 ^ 53" using n(2) by linarith
  have fq: "float_quotient n d = round_half_even X d div K"
    using branch by (simp add: float_quotient_def Let_def K_def X_def)
  have base: "M div K = n div d"
  proof -
    have "M div K = (n * K) div (d * K)"
      unfolding M_def X_def using K by (simp add: zdiv_zmult2_eq)
    also have "\<dots> = n div d" using K by simp
    finally show ?thesis .
  qed
  from round_half_even_cases [OF d, of X] show ?thesis
  proof
    assume "round_half_even X d = X div d"
    then show ?thesis using fq base by (simp add: M_def)
  next
    assume up: "round_half_even X d = X div d + 1 \<and> d \<le> 2 * (X mod d)"
    then have m: "round_half_even X d = M + 1" and half: "d \<le> 2 * R"
      by (simp_all add: M_def R_def)
    have "M mod K \<noteq> K - 1"
    proof
      assume e: "M mod K = K - 1"
      define c where "c = M div K + 1"
      have "M = (M div K) * K + M mod K" by simp
      then have Mc: "M + 1 = c * K" unfolding c_def e by (simp add: algebra_simps)
      have eq: "n * K + d = d * c * K + R"
      proof -
        have "d * c * K = d * (M + 1)" using Mc by (simp add: mult.assoc)
        then show ?thesis using X unfolding X_def by (simp add: algebra_simps)
      qed
      have "n * K < (d * c) * K" using eq R by linarith
      then have "n < d * c" using K by (simp add: mult_less_cancel_right)
      then have "n + 1 \<le> d * c" by simp
      then have "(n + 1) * K \<le> (d * c) * K" using K by (intro mult_right_mono) simp_all
      then have "n * K + K \<le> d * c * K" by (simp add: algebra_simps)
      then have "K + R \<le> d" using eq by linarith
      then have big: "2 * K \<le> d" using half by linarith
      have "n \<le> 2 ^ 53 - 1" using n(2) by simp
      then have "n * K \<le> (2 ^ 53 - 1) * K" using K by (intro mult_right_mono) simp_all
      then have "d * 2 ^ 52 \<le> (2 ^ 53 - 1) * K" using low by linarith
      then show False using big K by (simp add: algebra_simps)
    qed
    then have "(M + 1) div K = M div K" using K by (intro succ_div_same)
    then show ?thesis using fq m base by simp
  qed
qed

lemma abs_div_mult_le:
  fixes a b :: int
  assumes "b \<noteq> 0"
  shows "0 \<le> \<bar>a\<bar> div \<bar>b\<bar>" "(\<bar>a\<bar> div \<bar>b\<bar>) * \<bar>b\<bar> \<le> \<bar>a\<bar>" "\<bar>a\<bar> div \<bar>b\<bar> \<le> \<bar>a\<bar>"
proof -
  have b: "1 \<le> \<bar>b\<bar>" using assms by simp
  show q: "0 \<le> \<bar>a\<bar> div \<bar>b\<bar>" using b by (simp add: pos_imp_zdiv_nonneg_iff)
  have "\<bar>a\<bar> = (\<bar>a\<bar> div \<bar>b\<bar>) * \<bar>b\<bar> + \<bar>a\<bar> mod \<bar>b\<bar>" by simp
  moreover have "0 \<le> \<bar>a\<bar> mod \<bar>b\<bar>" using b by simp
  ultimately show m: "(\<bar>a\<bar> div \<bar>b\<bar>) * \<bar>b\<bar> \<le> \<bar>a\<bar>" by linarith
  have "(\<bar>a\<bar> div \<bar>b\<bar>) * 1 \<le> (\<bar>a\<bar> div \<bar>b\<bar>) * \<bar>b\<bar>"
    using q b by (intro mult_left_mono) simp_all
  then show "\<bar>a\<bar> div \<bar>b\<bar> \<le> \<bar>a\<bar>" using m by linarith
qed

lemma py_truediv_exact:
  assumes "\<bar>a\<bar> < 2 ^ 53" "b \<noteq> 0"
  shows "py_truediv a b = trunc_div a b" "\<not> overflows a b"
proof -
  have q: "float_quotient \<bar>a\<bar> \<bar>b\<bar> = \<bar>a\<bar> div \<bar>b\<bar>"
    using assms by (intro float_quotient_exact) simp_all
  show "py_truediv a b = trunc_div a b" by (simp add: py_truediv_def trunc_div_def q)
  have "(2 :: int) ^ 53 < 2 ^ 1024" by simp
  then show "\<not> overflows a b"
    using assms(1) abs_div_mult_le(3) [OF assms(2), of a] by (simp add: overflows_def q)
qed

lemma trunc_div_nonneg:
  assumes "0 \<le> a" "0 < b"
  shows "trunc_div a b = a div b"
  using assms by (cases "a = 0") (simp_all add: trunc_div_def)

lemma trunc_div_dvd:
  assumes "b dvd a"
  shows "trunc_div a b = a div b"
proof (cases "b = 0")
  case True
  then show ?thesis by (simp add: trunc_div_def)
next
  case False
  from assms obtain k where k: "a = b * k" by (auto simp: dvd_def)
  have "\<bar>a\<bar> div \<bar>b\<bar> = \<bar>k\<bar>" using False by (simp add: k abs_mult)
  moreover have "sgn a * sgn b = sgn k" using False by (simp add: k sgn_mult mult.commute)
  moreover have "sgn k * \<bar>k\<bar> = k" by (simp add: mult_sgn_abs)
  ultimately show ?thesis using False by (simp add: trunc_div_def k)
qed

lemma trunc_div_back:
  assumes "b \<noteq> 0"
  shows "trunc_div a b * b = a \<longleftrightarrow> b dvd a"
proof
  assume "trunc_div a b * b = a"
  then have "a = b * trunc_div a b" by (simp add: mult.commute)
  then show "b dvd a" by (rule dvdI)
next
  assume "b dvd a"
  then show "trunc_div a b * b = a" by (simp add: trunc_div_dvd)
qed


lemma truediv_components_exact:
  assumes "list_all2 (\<lambda>x y. \<bar>x\<bar> < 2 ^ 53 \<and> y \<noteq> 0) a b"
  shows "truediv_components a b = Inr (map2 trunc_div a b)"
  using assms by (induction rule: list_all2_induct) (simp_all add: py_truediv_exact)

lemma coord_truediv_exact:
  assumes "list_all2 (\<lambda>x y. \<bar>x\<bar> < 2 ^ 53 \<and> y \<noteq> 0) a b"
  shows "coord_truediv a b = Inr (map2 trunc_div a b)"
  using truediv_components_exact [OF assms] list_all2_lengthD [OF assms]
  by (simp add: coord_truediv_def)


text \<open>
  The quotient of vectors with non-negative dividends below \<open>2 ^ 53\<close> and positive
  divisors is the quotient rounded down, and so is that of exact multiples.
\<close>

lemma coord_truediv_nonneg:
  assumes "length a = length b" "list_all (\<lambda>x. 0 \<le> x \<and> x < 2 ^ 53) a"
    "list_all (\<lambda>y. 0 < y) b"
  shows "coord_truediv a b = Inr (map2 (div) a b)"
proof -
  from assms have "list_all2 (\<lambda>x y. \<bar>x\<bar> < 2 ^ 53 \<and> y \<noteq> 0) a b \<and>
      map2 trunc_div a b = map2 (div) a b"
    by (induction a b rule: list_induct2) (simp_all add: trunc_div_nonneg)
  then show ?thesis by (simp add: coord_truediv_exact)
qed

lemma coord_truediv_multiple:
  assumes "length a = length b" "list_all (\<lambda>x. \<bar>x\<bar> < 2 ^ 53) a" "0 \<notin> set b"
    "list_all2 (\<lambda>x y. y dvd x) a b"
  shows "coord_truediv a b = Inr (map2 (div) a b)"
proof -
  from assms have "list_all2 (\<lambda>x y. \<bar>x\<bar> < 2 ^ 53 \<and> y \<noteq> 0) a b \<and>
      map2 trunc_div a b = map2 (div) a b"
    by (induction a b rule: list_induct2) (simp_all add: trunc_div_dvd)
  then show ?thesis by (simp add: coord_truediv_exact)
qed

section \<open>Verification of the metadata resolver\<close>







lemma back_eq_iff:
  fixes offset voxel_size :: "int list"
  assumes "length offset = length voxel_size" "0 \<notin> set voxel_size"
  shows "map2 (*) (map2 trunc_div offset voxel_size) voxel_size = offset
         \<longleftrightarrow> multiple_of offset voxel_size"
  using assms
  by (induction offset voxel_size rule: list_induct2)
    (simp_all add: multiple_of_def trunc_div_back)

lemma snap_offset_test:
  assumes "list_all2 (\<lambda>x y. \<bar>x\<bar> < 2 ^ 53 \<and> y \<noteq> 0) offset voxel_size"
  shows "snap_offset offset voxel_size =
           (if multiple_of offset voxel_size then Inr offset
            else snap_formula offset voxel_size)"
proof -
  note len = list_all2_lengthD [OF assms]
  have "0 \<notin> set voxel_size"
    using assms by (induction rule: list_all2_induct) auto
  then show ?thesis
    using len back_eq_iff [OF len]
    by (simp add: snap_offset_def coord_truediv_exact [OF assms] coord_mul_def)
qed

lemma snap_offset_aligned:
  assumes "length off = length v" "list_all (\<lambda>x. \<bar>x\<bar> < 2 ^ 53) off" "0 \<notin> set v"
    "multiple_of off v"
  shows "snap_offset off v = Inr off"
proof -
  from assms(1,2,3) have "list_all2 (\<lambda>x y. \<bar>x\<bar> < 2 ^ 53 \<and> y \<noteq> 0) off v"
    by (induction off v rule: list_induct2) simp_all
  then show ?thesis using assms(4) by (simp add: snap_offset_test)
qed





text \<open>
  Reversing both vectors reverses the result of every elementwise operation. A
  division that fails fails on the reversed vectors too, with a zero divisor or an
  overflow according to the component that comes first.
\<close>

lemma division_class_simps [simp]:
  "division_class ZeroDivisionError = ZeroDivisionError"
  "division_class OverflowError = ZeroDivisionError"
  "division_class (AssertionError m a) = AssertionError m a"
  "division_class (KeyError k) = KeyError k"
  by (simp_all add: division_class_def)

lemma truediv_components_class:
  "map_sum division_class id (truediv_components a b) =
     (if list_ex (\<lambda>(x, y). y = 0 \<or> overflows x y) (zip a b) then Inl ZeroDivisionError
      else Inr (map2 py_truediv a b))"
  by (induction a b rule: truediv_components.induct) (auto split: sum.splits if_splits)

lemma truediv_components_rev:
  assumes "length a = length b"
  shows "map_sum division_class id (truediv_components (rev a) (rev b)) =
         map_sum division_class rev (truediv_components a b)"
proof -
  have z: "zip (rev a) (rev b) = rev (zip a b)" using assms by (simp add: zip_rev)
  have "map_sum division_class rev (truediv_components a b) =
        map_sum id rev (map_sum division_class id (truediv_components a b))"
    by (cases "truediv_components a b") simp_all
  then show ?thesis
    unfolding truediv_components_class z by (simp add: list_ex_iff rev_map)
qed

lemma coord_truediv_rev:
  "map_sum division_class id (coord_truediv (rev a) (rev b)) =
   map_sum division_class rev (coord_truediv a b)"
  by (simp add: coord_truediv_def truediv_components_rev)

lemma coord_truediv_number_rev:
  "map_sum division_class id (coord_truediv_number (rev a) n) =
   map_sum division_class rev (coord_truediv_number a n)"
  using truediv_components_rev [of a "replicate (length a) n"]
  by (simp add: coord_truediv_number_def)

lemma coord_add_rev:
  "map_sum division_class id (coord_add (rev a) (rev b)) =
   map_sum division_class rev (coord_add a b)"
  by (simp add: coord_add_def zip_rev rev_map)

lemma coord_mul_rev:
  "map_sum division_class id (coord_mul (rev a) (rev b)) =
   map_sum division_class rev (coord_mul a b)"
  by (simp add: coord_mul_def zip_rev rev_map)

lemma bind_rev:
  assumes "map_sum division_class id m' = map_sum division_class rev m"
    and "\<And>x. map_sum division_class id (g' (rev x)) = map_sum division_class rev (g x)"
  shows "map_sum division_class id (and_then m' g') = map_sum division_class rev (and_then m g)"
  using assms by (cases m; cases m') auto

lemma snap_formula_rev:
  "map_sum division_class id (snap_formula (rev offset) (rev voxel_size)) =
   map_sum division_class rev (snap_formula offset voxel_size)"
  unfolding snap_formula_def
  by (intro bind_rev coord_truediv_number_rev coord_add_rev coord_truediv_rev coord_mul_rev)

lemma snap_offset_rev:
  "map_sum division_class id (snap_offset (rev offset) (rev voxel_size)) =
   map_sum division_class rev (snap_offset offset voxel_size)"
  unfolding snap_offset_def
proof (intro bind_rev coord_truediv_rev coord_mul_rev)
  fix q r :: "int list"
  show "map_sum division_class id
          (if rev r \<noteq> rev offset then snap_formula (rev offset) (rev voxel_size)
           else Inr (rev offset)) =
        map_sum division_class rev
          (if r \<noteq> offset then snap_formula offset voxel_size else Inr offset)"
    by (simp add: snap_formula_rev)
qed

lemma snap_offset_dims:
  "length offset \<noteq> length voxel_size \<Longrightarrow>
     snap_offset offset voxel_size =
       Inl (AssertionError ''can only divide Coordinate of equal dimensions'' [])"
  by (simp add: snap_offset_def coord_truediv_def)

lemma read_voxel_size_no_transform:
  "\<not> uses_transform at \<Longrightarrow> read_voxel_size at order = read_voxel_size at ''C''"
  by (auto simp: uses_transform_def read_voxel_size_def split: option.splits)

lemma read_offset_no_transform:
  "\<not> uses_transform at \<Longrightarrow> read_offset at order dims = read_offset at ''C'' dims"
  by (auto simp: uses_transform_def read_offset_def split: option.splits)

lemma resolve_tail_rev:
  "map_sum division_class id
     (and_then (snap_offset (rev off) (rev v)) (\<lambda>offset. Inr (rev v, offset))) =
   map_sum division_class reversed (and_then (snap_offset off v) (\<lambda>offset. Inr (v, offset)))"
  using snap_offset_rev [of off v]
  by (cases "snap_offset off v"; cases "snap_offset (rev off) (rev v)")
    (simp_all add: reversed_def)

lemma resolve_after_sources:
  assumes "read_voxel_size (ds_attrs d) order = Inr v0"
    and "read_offset (ds_attrs d) order (map_option length v0) = Inr (off0, dims0)"
  shows "read_voxel_size_offset d order =
     (let dims = (case dims0 of None \<Rightarrow> length (ds_shape d) | Some n \<Rightarrow> n);
          v1 = (case v0 of None \<Rightarrow> replicate dims 1 | Some v \<Rightarrow> v);
          off1 = (case off0 of None \<Rightarrow> replicate dims 0 | Some off \<Rightarrow> off)
      in if order = ''F''
         then and_then (snap_offset (rev off1) (rev v1)) (\<lambda>offset. Inr (rev v1, offset))
         else and_then (snap_offset off1 v1) (\<lambda>offset. Inr (v1, offset)))"
  using assms by (simp add: read_voxel_size_offset_def Let_def)

lemma resolve_order_direct:
  assumes nt: "\<not> uses_transform (ds_attrs d)"
  shows "map_sum division_class id (read_voxel_size_offset d ''F'') =
         map_sum division_class reversed (read_voxel_size_offset d ''C'')"
proof (cases "read_voxel_size (ds_attrs d) ''C''")
  case (Inl e)
  then show ?thesis
    by (simp add: read_voxel_size_offset_def read_voxel_size_no_transform [OF nt, of "''F''"])
next
  case v: (Inr v0)
  then have vF: "read_voxel_size (ds_attrs d) ''F'' = Inr v0"
    by (simp add: read_voxel_size_no_transform [OF nt, of "''F''"])
  show ?thesis
  proof (cases "read_offset (ds_attrs d) ''C'' (map_option length v0)")
    case (Inl e)
    then show ?thesis
      by (simp add: read_voxel_size_offset_def vF v read_offset_no_transform [OF nt, of "''F''"])
  next
    case (Inr od)
    obtain off0 dims0 where od: "od = (off0, dims0)" by (cases od)
    have oC: "read_offset (ds_attrs d) ''C'' (map_option length v0) = Inr (off0, dims0)"
      using Inr od by simp
    then have oF: "read_offset (ds_attrs d) ''F'' (map_option length v0) = Inr (off0, dims0)"
      by (simp add: read_offset_no_transform [OF nt, of "''F''"])
    define dims where "dims = (case dims0 of None \<Rightarrow> length (ds_shape d) | Some n \<Rightarrow> n)"
    define v1 where "v1 = (case v0 of None \<Rightarrow> replicate dims 1 | Some v \<Rightarrow> v)"
    define off1 where "off1 = (case off0 of None \<Rightarrow> replicate dims 0 | Some off \<Rightarrow> off)"
    have F: "read_voxel_size_offset d ''F'' =
        and_then (snap_offset (rev off1) (rev v1)) (\<lambda>offset. Inr (rev v1, offset))"
      unfolding resolve_after_sources [OF vF oF] dims_def v1_def off1_def
      by (simp add: Let_def)
    have C: "read_voxel_size_offset d ''C'' =
        and_then (snap_offset off1 v1) (\<lambda>offset. Inr (v1, offset))"
      unfolding resolve_after_sources [OF v oC] dims_def v1_def off1_def
      by (simp add: Let_def)
    show ?thesis unfolding F C by (rule resolve_tail_rev)
  qed
qed

lemma resolve_order_transform:
  assumes ot: "only_transform (ds_attrs d)"
  shows "read_voxel_size_offset d ''F'' = read_voxel_size_offset d ''C''"
proof -
  from ot obtain t where t: "a_transform (ds_attrs d) = Some t"
    and none: "a_resolution (ds_attrs d) = None" "a_scale (ds_attrs d) = None"
      "a_pixelResolution (ds_attrs d) = None" "a_offset (ds_attrs d) = None"
    and ord: "transform_order t = ''C'' \<or> transform_order t = ''F''"
    by (auto simp: only_transform_def split: option.splits)
  have vs: "read_voxel_size (ds_attrs d) order =
      (case t_scale t of None \<Rightarrow> Inl (KeyError ''scale'')
       | Some s \<Rightarrow> Inr (Some (if transform_order t \<noteq> order then rev s else s)))" for order
    by (simp add: read_voxel_size_def t none)
  have os: "read_offset (ds_attrs d) order dims =
      (case t_translate t of None \<Rightarrow> Inl (KeyError ''translate'')
       | Some tr \<Rightarrow> Inr (Some (if transform_order t \<noteq> order then rev tr else tr), dims))" for order dims
    by (simp add: read_offset_def t none)
  show ?thesis
  proof (cases "t_scale t")
    case None
    then show ?thesis by (simp add: read_voxel_size_offset_def vs)
  next
    case s: (Some s)
    show ?thesis
    proof (cases "t_translate t")
      case None
      then show ?thesis by (simp add: read_voxel_size_offset_def vs os s)
    next
      case (Some tr)
      from ord show ?thesis
      proof
        assume "transform_order t = ''C''"
        then show ?thesis by (simp add: read_voxel_size_offset_def vs os s Some)
      next
        assume "transform_order t = ''F''"
        then show ?thesis by (simp add: read_voxel_size_offset_def vs os s Some)
      qed
    qed
  qed
qed

text \<open>
  Claim C1, as amended. When neither vector is read from the transform descriptor
  (the voxel size comes from \<^verbatim>\<open>resolution\<close>, \<^verbatim>\<open>scale\<close> or
  \<^verbatim>\<open>pixelResolution.dimensions\<close> or is the default, the offset comes from \<^verbatim>\<open>offset\<close>
  or is the default), resolving with column-major order gives the elementwise
  reverse of what row-major order gives; when it fails, it fails in both orders, with
  the same error, except that a zero divisor in one order may be an overflow in the
  other. When both vectors are read from the transform descriptor, whose ordering is
  C or F (C when absent), both orders give the same result.
\<close>

theorem read_voxel_size_offset_order:
  "(\<not> uses_transform (ds_attrs d) \<longrightarrow>
      map_sum division_class id (read_voxel_size_offset d ''F'') =
      map_sum division_class reversed (read_voxel_size_offset d ''C'')) \<and>
   (only_transform (ds_attrs d) \<longrightarrow>
      read_voxel_size_offset d ''F'' = read_voxel_size_offset d ''C'')"
  using resolve_order_direct [of d] resolve_order_transform [of d] by blast

text \<open>
  Claim C1 as stated fails for a transform descriptor: with scale \<open>(1, 2)\<close> and
  translate \<open>(3, 4)\<close> both orders resolve to the same vectors, not to reversed ones.
  It also fails in the error of a failing resolution: with voxel size \<open>(1, 0)\<close> and
  offset \<open>(2 ^ 1024, 1)\<close> the alignment test overflows on the first axis in row-major
  order and divides by zero on the first axis in column-major order.
\<close>

theorem read_voxel_size_offset_order_counterexample:
  "read_voxel_size_offset transform_ds ''C'' = Inr ([1, 2], [3, 4]) \<and>
   read_voxel_size_offset transform_ds ''F'' = Inr ([1, 2], [3, 4]) \<and>
   read_voxel_size_offset transform_ds ''F'' \<noteq>
     map_sum id reversed (read_voxel_size_offset transform_ds ''C'') \<and>
   \<not> uses_transform (ds_attrs overflow_ds) \<and>
   read_voxel_size_offset overflow_ds ''C'' = Inl OverflowError \<and>
   read_voxel_size_offset overflow_ds ''F'' = Inl ZeroDivisionError"
proof -
  have t: "read_voxel_size_offset transform_ds ''C'' = Inr ([1, 2], [3, 4])"
    "read_voxel_size_offset transform_ds ''F'' = Inr ([1, 2], [3, 4])"
    by code_simp+
  have u: "\<not> uses_transform (ds_attrs overflow_ds)"
    by (simp add: uses_transform_def overflow_ds_def no_attrs_def)
  have o: "read_voxel_size_offset overflow_ds ''C'' = Inl OverflowError"
    "read_voxel_size_offset overflow_ds ''F'' = Inl ZeroDivisionError"
    by code_simp+
  show ?thesis using t u o by (simp add: reversed_def)
qed

theorem read_voxel_size_offset_order_witness:
  "\<not> uses_transform (ds_attrs resolution_ds) \<and>
   read_voxel_size_offset resolution_ds ''C'' = Inr ([1, 2], [3, 4]) \<and>
   read_voxel_size_offset resolution_ds ''F'' = Inr ([2, 1], [4, 3]) \<and>
   only_transform (ds_attrs transform_ds) \<and>
   read_voxel_size_offset transform_ds ''F'' = read_voxel_size_offset transform_ds ''C''"
proof -
  have a: "\<not> uses_transform (ds_attrs resolution_ds)"
    by (simp add: uses_transform_def resolution_ds_def no_attrs_def)
  have b: "only_transform (ds_attrs transform_ds)"
    by (simp add: only_transform_def transform_ds_def no_attrs_def transform_order_def)
  have c: "read_voxel_size_offset resolution_ds ''C'' = Inr ([1, 2], [3, 4])"
    by code_simp
  have "map_sum division_class id (read_voxel_size_offset resolution_ds ''F'') =
        Inr ([2, 1], [4, 3])"
    using read_voxel_size_offset_order [of resolution_ds] a c by (simp add: reversed_def)
  then have d: "read_voxel_size_offset resolution_ds ''F'' = Inr ([2, 1], [4, 3])"
    by (cases "read_voxel_size_offset resolution_ds ''F''") simp_all
  show ?thesis
    using read_voxel_size_offset_order [of transform_ds] a b c d by simp
qed

lemma read_voxel_size_source:
  assumes "voxel_size_source at = Some v"
  shows "\<exists>v'. read_voxel_size at order = Inr (Some v') \<and> length v' = length v"
  using assms
  by (auto simp: voxel_size_source_def read_voxel_size_def split: option.splits)

lemma read_offset_direct_mismatch:
  assumes "a_offset at = Some off" "n \<noteq> length off"
  shows "read_offset at order (Some n) =
           Inl (AssertionError ''resolution and offset attributes differ in length'' [])"
  using assms by (simp add: read_offset_def)

lemma read_offset_translate:
  assumes "a_offset at = None" "offset_source at = Some off"
  shows "\<exists>off'. read_offset at order dims = Inr (Some off', dims) \<and> length off' = length off"
  using assms
  by (auto simp: offset_source_def read_offset_def split: option.splits)

text \<open>
  Claim C6. When the source of the voxel size and the source of the offset supply
  vectors of different lengths, resolution fails with an assertion error about the
  dimensions, in either order, and returns no pair: for an \<^verbatim>\<open>offset\<close> attribute it
  is the resolver's own assertion (line 45), for \<^verbatim>\<open>transform.translate\<close> the
  assertion of the division in the alignment test (line 70).
\<close>

theorem read_voxel_size_offset_dims_mismatch:
  assumes v: "voxel_size_source (ds_attrs d) = Some v"
    and off: "offset_source (ds_attrs d) = Some off"
    and len: "length v \<noteq> length off"
  shows "read_voxel_size_offset d order =
           Inl (AssertionError
                 (if a_offset (ds_attrs d) \<noteq> None
                  then ''resolution and offset attributes differ in length''
                  else ''can only divide Coordinate of equal dimensions'') [])"
proof -
  from read_voxel_size_source [OF v, of order] obtain v' where
    v': "read_voxel_size (ds_attrs d) order = Inr (Some v')" "length v' = length v" by blast
  show ?thesis
  proof (cases "a_offset (ds_attrs d)")
    case (Some o1)
    then have "off = o1" using off by (simp add: offset_source_def)
    then have "read_offset (ds_attrs d) order (Some (length v')) =
        Inl (AssertionError ''resolution and offset attributes differ in length'' [])"
      using Some len v'(2) by (intro read_offset_direct_mismatch) simp_all
    then show ?thesis
      using Some by (simp add: read_voxel_size_offset_def v'(1))
  next
    case None
    from read_offset_translate [OF None off, of order "Some (length v')"] obtain off' where
      o: "read_offset (ds_attrs d) order (map_option length (Some v')) = Inr (Some off', Some (length v'))"
        "length off' = length off" by auto
    have ne: "length off' \<noteq> length v'" using o(2) v'(2) len by simp
    then have ner: "length (rev off') \<noteq> length (rev v')" by simp
    have "read_voxel_size_offset d order =
        Inl (AssertionError ''can only divide Coordinate of equal dimensions'' [])"
      unfolding resolve_after_sources [OF v'(1) o(1)]
      using snap_offset_dims [OF ne] snap_offset_dims [OF ner] by (simp add: Let_def)
    then show ?thesis using None by simp
  qed
qed

theorem read_voxel_size_offset_dims_mismatch_witness:
  "voxel_size_source (ds_attrs mismatch_direct_ds) = Some [1, 1, 1] \<and>
   offset_source (ds_attrs mismatch_direct_ds) = Some [0, 0] \<and>
   length [1, 1, 1 :: int] \<noteq> length [0, 0 :: int] \<and>
   read_voxel_size_offset mismatch_direct_ds ''C'' =
     Inl (AssertionError ''resolution and offset attributes differ in length'' []) \<and>
   voxel_size_source (ds_attrs mismatch_transform_ds) = Some [1, 1, 1] \<and>
   offset_source (ds_attrs mismatch_transform_ds) = Some [0, 0] \<and>
   read_voxel_size_offset mismatch_transform_ds ''F'' =
     Inl (AssertionError ''can only divide Coordinate of equal dimensions'' [])"
proof -
  have a: "voxel_size_source (ds_attrs mismatch_direct_ds) = Some [1, 1, 1]"
    "offset_source (ds_attrs mismatch_direct_ds) = Some [0, 0]"
    "a_offset (ds_attrs mismatch_direct_ds) \<noteq> None"
    by (simp_all add: mismatch_direct_ds_def voxel_size_source_def offset_source_def no_attrs_def)
  have b: "voxel_size_source (ds_attrs mismatch_transform_ds) = Some [1, 1, 1]"
    "offset_source (ds_attrs mismatch_transform_ds) = Some [0, 0]"
    "a_offset (ds_attrs mismatch_transform_ds) = None"
    by (simp_all add: mismatch_transform_ds_def voxel_size_source_def offset_source_def no_attrs_def)
  show ?thesis
    using read_voxel_size_offset_dims_mismatch [OF a(1,2), of "''C''"]
      read_voxel_size_offset_dims_mismatch [OF b(1,2), of "''F''"] a b
    by simp
qed

section \<open>Verification of the provisioner\<close>

lemma is_multiple_of_eq:
  assumes "length a = length b" "0 \<notin> set b"
  shows "is_multiple_of a b = Inr (list_all (\<lambda>(x, y). x mod y = 0) (zip a b))"
proof -
  have "snd ` set (zip a b) \<subseteq> set b" by (auto dest: set_zip_rightD)
  then show ?thesis using assms(2) by (auto simp: is_multiple_of_def)
qed

lemma multiple_of_iff:
  assumes "length a = length b"
  shows "list_all (\<lambda>(x, y). x mod y = 0) (zip a b) \<longleftrightarrow> multiple_of a b"
  using assms
  by (auto simp: multiple_of_def list_all2_iff list_all_iff dvd_eq_mod_eq_0)

lemma is_multiple_of_multiple:
  assumes "length a = length b" "0 \<notin> set b"
  shows "is_multiple_of a b = Inr (multiple_of a b)"
  using is_multiple_of_eq [OF assms] multiple_of_iff [OF assms(1)] by simp

lemma prepare_ds_request_error:
  "prepare_request req = Inl e \<Longrightarrow> prepare_ds req st = (Inl e, st)"
  by (subst prepare_ds.simps) simp

lemma prepare_request_alignment_error:
  "check_alignment req = Inl e \<Longrightarrow> prepare_request req = Inl e"
  by (simp add: prepare_request_def)

text \<open>
  Claim C8. For a voxel size without zero components and a total Roi and write size
  of its dimensionality: when the shape or the offset of the total Roi, or the write
  size in effect, is not an exact multiple of the voxel size, \<^verbatim>\<open>prepare_ds\<close> raises
  an assertion error and leaves the store as it was.
\<close>

theorem prepare_ds_alignment:
  assumes nz: "0 \<notin> set (req_voxel_size req)"
    and ls: "length (roi_shape (req_total_roi req)) = length (req_voxel_size req)"
    and lb: "length (roi_begin (req_total_roi req)) = length (req_voxel_size req)"
    and lw: "\<forall>ws. write_size_in_effect req = Some ws \<longrightarrow> length ws = length (req_voxel_size req)"
    and bad: "\<not> multiple_of (roi_shape (req_total_roi req)) (req_voxel_size req) \<or>
              \<not> multiple_of (roi_begin (req_total_roi req)) (req_voxel_size req) \<or>
              (\<exists>ws. write_size_in_effect req = Some ws \<and> \<not> multiple_of ws (req_voxel_size req))"
  shows "\<exists>msg args. prepare_ds req st = (Inl (AssertionError msg args), st)"
proof -
  have s: "is_multiple_of (roi_shape (req_total_roi req)) (req_voxel_size req) =
             Inr (multiple_of (roi_shape (req_total_roi req)) (req_voxel_size req))"
    by (rule is_multiple_of_multiple [OF ls nz])
  have b: "is_multiple_of (roi_begin (req_total_roi req)) (req_voxel_size req) =
             Inr (multiple_of (roi_begin (req_total_roi req)) (req_voxel_size req))"
    by (rule is_multiple_of_multiple [OF lb nz])
  have w: "\<And>ws. write_size_in_effect req = Some ws \<Longrightarrow>
             is_multiple_of ws (req_voxel_size req) = Inr (multiple_of ws (req_voxel_size req))"
    using lw nz by (intro is_multiple_of_multiple) simp_all
  have "\<exists>msg args. check_alignment req = Inl (AssertionError msg args)"
  proof (cases "multiple_of (roi_shape (req_total_roi req)) (req_voxel_size req)")
    case False
    then show ?thesis by (simp add: check_alignment_def Let_def s)
  next
    case sh: True
    show ?thesis
    proof (cases "multiple_of (roi_begin (req_total_roi req)) (req_voxel_size req)")
      case False
      then show ?thesis by (simp add: check_alignment_def Let_def s b sh)
    next
      case True
      with sh bad obtain ws where ws: "write_size_in_effect req = Some ws"
        "\<not> multiple_of ws (req_voxel_size req)" by blast
      then show ?thesis by (simp add: check_alignment_def Let_def s b sh True w)
    qed
  qed
  then obtain msg args where "check_alignment req = Inl (AssertionError msg args)" by blast
  then have "prepare_ds req st = (Inl (AssertionError msg args), st)"
    by (intro prepare_ds_request_error prepare_request_alignment_error)
  then show ?thesis by blast
qed

theorem prepare_ds_alignment_witness:
  "0 \<notin> set (req_voxel_size (example_request\<lparr>req_write_size := Some [5, 6]\<rparr>)) \<and>
   write_size_in_effect (example_request\<lparr>req_write_size := Some [5, 6]\<rparr>) = Some [5, 6] \<and>
   \<not> multiple_of [5, 6] (req_voxel_size (example_request\<lparr>req_write_size := Some [5, 6]\<rparr>)) \<and>
   (\<exists>msg args. prepare_ds (example_request\<lparr>req_write_size := Some [5, 6]\<rparr>) empty_store =
       (Inl (AssertionError msg args), empty_store)) \<and>
   fst (prepare_ds (example_request\<lparr>req_write_size := Some [5, 6]\<rparr>) empty_store) =
     Inl (AssertionError
       ''The provided write size ({write_size}) is not a multiple of voxel_size ({voxel_size})''
       [[5, 6], [2, 3]])"
proof -
  let ?r = "example_request\<lparr>req_write_size := Some [5, 6]\<rparr>"
  have a: "0 \<notin> set (req_voxel_size ?r)" by (simp add: example_request_def)
  have b: "length (roi_shape (req_total_roi ?r)) = length (req_voxel_size ?r)"
    "length (roi_begin (req_total_roi ?r)) = length (req_voxel_size ?r)"
    by (simp_all add: example_request_def)
  have w: "write_size_in_effect ?r = Some [5, 6]"
    by (simp add: write_size_in_effect_def example_request_def)
  have c: "\<forall>ws. write_size_in_effect ?r = Some ws \<longrightarrow> length ws = length (req_voxel_size ?r)"
    by (simp add: w) (simp add: example_request_def)
  have n: "\<not> multiple_of [5, 6] (req_voxel_size ?r)"
    by (simp add: multiple_of_def example_request_def)
  have d: "\<not> multiple_of (roi_shape (req_total_roi ?r)) (req_voxel_size ?r) \<or>
           \<not> multiple_of (roi_begin (req_total_roi ?r)) (req_voxel_size ?r) \<or>
           (\<exists>ws. write_size_in_effect ?r = Some ws \<and> \<not> multiple_of ws (req_voxel_size ?r))"
    using w n by simp
  have e: "fst (prepare_ds ?r empty_store) =
     Inl (AssertionError
       ''The provided write size ({write_size}) is not a multiple of voxel_size ({voxel_size})''
       [[5, 6], [2, 3]])"
    by code_simp
  show ?thesis
    using prepare_ds_alignment [OF a b c d, of empty_store] a w n e by simp
qed

lemma endswith_last:
  assumes "endswith s a" "a \<noteq> []"
  shows "last s = last a"
proof -
  from assms have d: "drop (length s - length a) s = a" and l: "length a \<le> length s"
    by (simp_all add: endswith_def)
  have "length s - length a < length s" using assms(2) l by (cases a) auto
  then have "last (drop (length s - length a) s) = last s" by (rule last_drop)
  with d show ?thesis by simp
qed

lemma endswith_same_length:
  assumes "endswith s a" "endswith s b" "length a = length b"
  shows "a = b"
  using assms by (simp add: endswith_def)

lemma provisionable_suffixes:
  assumes "provisionable f"
  shows "\<not> endswith f ''.h5''" "\<not> endswith f ''.hdf''" "\<not> endswith f ''.zip''"
    "endswith f ''.zarr'' \<longrightarrow> \<not> endswith f ''.n5''"
proof -
  have z: "endswith f ''.zarr'' \<Longrightarrow> last f = CHR ''r''"
    using endswith_last [of f "''.zarr''"] by simp
  have n: "endswith f ''.n5'' \<Longrightarrow> last f = CHR ''5''"
    using endswith_last [of f "''.n5''"] by simp
  have h: "endswith f ''.h5'' \<Longrightarrow> last f = CHR ''5''"
    using endswith_last [of f "''.h5''"] by simp
  have d: "endswith f ''.hdf'' \<Longrightarrow> last f = CHR ''f''"
    using endswith_last [of f "''.hdf''"] by simp
  have p: "endswith f ''.zip'' \<Longrightarrow> last f = CHR ''p''"
    using endswith_last [of f "''.zip''"] by simp
  have nh: "endswith f ''.n5'' \<Longrightarrow> \<not> endswith f ''.h5''"
    using endswith_same_length [of f "''.n5''" "''.h5''"] by auto
  show "\<not> endswith f ''.h5''" using assms z h nh by (auto simp: provisionable_def)
  show "\<not> endswith f ''.hdf''" using assms z n d by (auto simp: provisionable_def)
  show "\<not> endswith f ''.zip''" using assms z n p by (auto simp: provisionable_def)
  show "endswith f ''.zarr'' \<longrightarrow> \<not> endswith f ''.n5''" using z n by auto
qed

lemma file_format_ok:
  assumes "provisionable f"
  shows "file_format_of f = Inr (if endswith f ''.zarr'' then ''zarr'' else ''n5'')"
  using assms provisionable_suffixes(1,2) [OF assms]
  by (auto simp: file_format_of_def provisionable_def)

lemma well_formed_nonzero: "well_formed req \<Longrightarrow> 0 \<notin> set (req_voxel_size req)"
  by (auto simp: well_formed_def list_all_iff)

lemma check_alignment_ok:
  assumes wf: "well_formed req" and al: "aligned req"
  shows "check_alignment req = Inr (write_size_in_effect req)"
proof -
  note nz = well_formed_nonzero [OF wf]
  have s: "is_multiple_of (roi_shape (req_total_roi req)) (req_voxel_size req) = Inr True"
    using wf al nz by (simp add: is_multiple_of_multiple well_formed_def aligned_def)
  have b: "is_multiple_of (roi_begin (req_total_roi req)) (req_voxel_size req) = Inr True"
    using wf al nz by (simp add: is_multiple_of_multiple well_formed_def aligned_def)
  show ?thesis
  proof (cases "write_size_in_effect req")
    case None
    then show ?thesis by (simp add: check_alignment_def Let_def s b)
  next
    case (Some ws)
    then have "is_multiple_of ws (req_voxel_size req) = Inr True"
      using wf al nz by (simp add: is_multiple_of_multiple well_formed_def aligned_def)
    then show ?thesis using Some by (simp add: check_alignment_def Let_def s b)
  qed
qed

lemma block_positive:
  fixes ws v :: "int list"
  assumes "length ws = length v" "list_all (\<lambda>x. 0 < x) v"
    "list_all (\<lambda>x. 0 < x \<and> x < 2 ^ 53) ws" "multiple_of ws v"
  shows "list_all (\<lambda>b. 1 \<le> b \<and> b < 2 ^ 53) (map2 (div) ws v)"
  using assms
proof (induction ws v rule: list_induct2)
  case Nil
  then show ?case by simp
next
  case (Cons x xs y ys)
  then have y: "0 < y" and x: "0 < x" "x < 2 ^ 53" and d: "y dvd x"
    by (simp_all add: multiple_of_def)
  from d obtain k where k: "x = y * k" by (auto simp: dvd_def)
  have "0 < k" using x y k by (simp add: zero_less_mult_iff)
  then have "1 \<le> x div y" using k y by simp
  moreover have "x div y \<le> x" using abs_div_mult_le(3) [of y x] x(1) y by simp
  moreover have "list_all (\<lambda>b. 1 \<le> b \<and> b < 2 ^ 53) (map2 (div) xs ys)"
    using Cons by (simp add: multiple_of_def)
  ultimately show ?case using x(2) by simp
qed

lemma small_positive:
  fixes xs :: "int list"
  assumes "list_all (\<lambda>x. 0 < x \<and> x < 2 ^ 53) xs"
  shows "list_all (\<lambda>x. 0 \<le> x \<and> x < 2 ^ 53) xs" "list_all (\<lambda>x. \<bar>x\<bar> < 2 ^ 53) xs"
  using assms by (induction xs) simp_all

lemma plan_chunk_shape_ok:
  assumes "length ws = length v" "list_all (\<lambda>x. 0 < x) v"
    "list_all (\<lambda>x. 0 < x \<and> x < 2 ^ 53) ws" "multiple_of ws v"
  shows "\<exists>c. plan_chunk_shape (Some ws) v force = Inr (Some c) \<and> length c = length v \<and>
             list_all (\<lambda>x. 1 \<le> x \<and> x < 2 ^ 53) c"
proof -
  have q: "coord_truediv ws v = Inr (map2 (div) ws v)"
    by (rule coord_truediv_nonneg [OF assms(1) small_positive(1) [OF assms(3)] assms(2)])
  note pos = block_positive [OF assms]
  show ?thesis
  proof (cases force)
    case True
    then show ?thesis using q pos assms(1) by (simp add: plan_chunk_shape_def)
  next
    case False
    from get_chunk_shape_bounds [OF pos] obtain cs where
      "get_chunk_shape (map2 (div) ws v) = Inr cs" "length cs = length (map2 (div) ws v)"
      "list_all (\<lambda>c. 1 \<le> c \<and> c < 2 ^ 53) cs" by blast
    then show ?thesis using False q assms(1) by (simp add: plan_chunk_shape_def)
  qed
qed

lemma prepare_request_ok:
  assumes wf: "well_formed req" and al: "aligned req" and pr: "provisionable (req_filename req)"
  shows "\<exists>p. prepare_request req = Inr p \<and>
           p_ds_name p = lstrip_slash (req_ds_name req) \<and>
           p_write_size p = write_size_in_effect req \<and>
           p_compressor p = resolve_compressor (req_compressor req) \<and>
           p_file_format p = (if endswith (req_filename req) ''.zarr'' then ''zarr'' else ''n5'') \<and>
           p_shape p =
             (case req_num_channels req of
                None \<Rightarrow> map2 (div) (roi_shape (req_total_roi req)) (req_voxel_size req)
              | Some n \<Rightarrow> n # map2 (div) (roi_shape (req_total_roi req)) (req_voxel_size req)) \<and>
           p_voxel_size_with_channels p =
             (case req_num_channels req of None \<Rightarrow> None | Some n \<Rightarrow> Some (1 # req_voxel_size req)) \<and>
           (case write_size_in_effect req of
              None \<Rightarrow> p_chunk_shape p = None
            | Some ws \<Rightarrow>
               (\<exists>c. length c = length (req_voxel_size req) \<and>
                    list_all (\<lambda>x. 1 \<le> x \<and> x < 2 ^ 53) c \<and>
                    p_chunk_shape p =
                      Some (case req_num_channels req of None \<Rightarrow> c | Some n \<Rightarrow> n # c)))"
proof -
  have pos: "list_all (\<lambda>x. 0 < x) (req_voxel_size req)"
    using wf by (simp add: well_formed_def)
  have "length (roi_shape (req_total_roi req)) = length (req_voxel_size req)"
    "list_all (\<lambda>x. 0 < x \<and> x < 2 ^ 53) (roi_shape (req_total_roi req))"
    using wf by (simp_all add: well_formed_def)
  then have sh: "coord_truediv (roi_shape (req_total_roi req)) (req_voxel_size req) =
      Inr (map2 (div) (roi_shape (req_total_roi req)) (req_voxel_size req))"
    using pos by (intro coord_truediv_nonneg small_positive(1))
  show ?thesis
  proof (cases "write_size_in_effect req")
    case None
    then show ?thesis
      by (simp add: prepare_request_def check_alignment_ok [OF wf al] file_format_ok [OF pr]
          plan_chunk_shape_def sh split: option.splits)
  next
    case (Some ws)
    then have "length ws = length (req_voxel_size req)" "list_all (\<lambda>x. 0 < x) (req_voxel_size req)"
      "list_all (\<lambda>x. 0 < x \<and> x < 2 ^ 53) ws" "multiple_of ws (req_voxel_size req)"
      using wf al by (simp_all add: well_formed_def aligned_def)
    from plan_chunk_shape_ok [OF this, of "req_force_exact_write_size req"] obtain c where
      c: "plan_chunk_shape (Some ws) (req_voxel_size req) (req_force_exact_write_size req) = Inr (Some c)"
        "length c = length (req_voxel_size req)" "list_all (\<lambda>x. 1 \<le> x \<and> x < 2 ^ 53) c" by blast
    show ?thesis
      using c(2,3)
      by (simp add: prepare_request_def check_alignment_ok [OF wf al] file_format_ok [OF pr]
          Some c(1) sh split: option.splits)
  qed
qed

lemma prepare_request_name:
  "prepare_request req = Inr p \<Longrightarrow> p_ds_name p = lstrip_slash (req_ds_name req)"
  by (auto simp: prepare_request_def and_then_def split: sum.splits)

lemma plain_name_nonempty: "plain_name n \<Longrightarrow> n \<noteq> []"
  by (simp add: plain_name_def)

lemma isdir_ds_isdir: "isdir_ds st f n \<Longrightarrow> isdir st f"
  by (auto simp: isdir_ds_def isdir_def split: option.splits)

lemma isdir_ds_makedirs: "n \<noteq> [] \<Longrightarrow> \<not> isdir_ds (makedirs st f) f n"
  by (simp add: isdir_ds_def makedirs_def)

lemma prepare_ds_fresh:
  assumes "prepare_request req = Inr p"
    and "\<not> isdir_ds st (req_filename req) (p_ds_name p)"
    and "p_ds_name p \<noteq> []"
  shows "prepare_ds req st =
           create_branch req p
             (if \<not> isdir st (req_filename req) then makedirs st (req_filename req) else st)"
  using assms by (subst prepare_ds.simps) (simp add: Let_def isdir_ds_makedirs)

lemma prepare_ds_existing:
  assumes "prepare_request req = Inr p"
    and "isdir_ds st (req_filename req) (p_ds_name p)"
    and "open_ds recursion_limit st (req_filename req) (p_ds_name p) ''a'' = Inr a"
    and "mismatches req p a = Inr differing"
  shows "prepare_ds req st =
           (if differing \<noteq> [] then
              if \<not> req_delete req then
                (Inl (incompatible_error (req_filename req) (p_ds_name p)), st)
              else prepare_ds (retry_request req p) (rmtree st (req_filename req) (p_ds_name p))
            else (Inr a, st))"
  using assms isdir_ds_isdir [OF assms(2)]
  by (subst prepare_ds.simps) (simp add: Let_def incompatible_error_def)

lemma backend_open_created:
  "n \<noteq> [] \<Longrightarrow> backend_open (create_dataset st f n d) f n = Inr (Dataset d)"
  by (simp add: backend_open_def create_dataset_def)

lemma isdir_ds_created: "isdir_ds (create_dataset st f n d) f n"
  by (simp add: isdir_ds_def create_dataset_def)

lemma map2_div_differs:
  fixes c v :: "int list"
  assumes "length c = length v" "list_all (\<lambda>x. 1 \<le> x) c" "list_all (\<lambda>x. 0 < x) v"
    "\<exists>x\<in>set v. x \<noteq> 1"
  shows "map2 (div) c v \<noteq> c"
  using assms
proof (induction c v rule: list_induct2)
  case Nil
  then show ?case by simp
next
  case (Cons x xs y ys)
  show ?case
  proof (cases "y = 1")
    case True
    with Cons show ?thesis by simp
  next
    case False
    with Cons.prems have "1 < y" "1 \<le> x" by simp_all
    then have "x div y < x" by (intro int_div_less_self) simp_all
    then show ?thesis by simp
  qed
qed

lemma get_codec_known:
  assumes "known_compressor c"
  shows "get_codec (resolve_compressor c) = Inr (resolve_compressor c)"
  using assms
  by (cases c) (simp_all add: known_compressor_def resolve_compressor_def get_codec_def)

lemma create_branch_chunked:
  assumes co: "get_codec (p_compressor p) = Inr codec"
    and ch: "p_chunk_shape p = Some cc"
    and vc: "p_voxel_size_with_channels p = vwc"
    and q: "coord_truediv cc (case vwc of None \<Rightarrow> req_voxel_size req | Some w \<Rightarrow> w) = Inr c'"
  shows "create_branch req p st =
           (Inr (mk_array (new_dataset st req p) (req_total_roi req) (req_voxel_size req) None
                  (Some c')),
            create_dataset st (req_filename req) (p_ds_name p) (new_dataset st req p))"
  using assms by (simp add: create_branch_def Let_def)

lemma create_branch_unchunked:
  assumes "get_codec (p_compressor p) = Inr codec" "p_chunk_shape p = None"
  shows "create_branch req p st =
           (Inr (mk_array (new_dataset st req p) (req_total_roi req) (req_voxel_size req) None None),
            create_dataset st (req_filename req) (p_ds_name p) (new_dataset st req p))"
  using assms by (simp add: create_branch_def Let_def)

lemma chunk_division:
  fixes c v :: "int list"
  assumes "length c = length v" "list_all (\<lambda>x. 1 \<le> x \<and> x < 2 ^ 53) c" "list_all (\<lambda>x. 0 < x) v"
    and "case nc of None \<Rightarrow> True | Some n \<Rightarrow> 0 < n \<and> n < 2 ^ 53"
  shows "coord_truediv (case nc of None \<Rightarrow> c | Some n \<Rightarrow> n # c)
           (case nc of None \<Rightarrow> v | Some n \<Rightarrow> 1 # v) =
         Inr (map2 (div) (case nc of None \<Rightarrow> c | Some n \<Rightarrow> n # c)
                (case nc of None \<Rightarrow> v | Some n \<Rightarrow> 1 # v))"
proof -
  have "list_all (\<lambda>x. 0 \<le> x \<and> x < 2 ^ 53) c"
    using assms(2) by (induction c) simp_all
  then show ?thesis
    using assms by (intro coord_truediv_nonneg) (simp_all split: option.splits)
qed

lemma example_request_wf:
  "well_formed example_request" "aligned example_request"
  "provisionable (req_filename example_request)"
  "write_size_in_effect example_request = Some [4, 6]"
  "\<not> isdir_ds empty_store (req_filename example_request) (lstrip_slash (req_ds_name example_request))"
  by (simp_all add: well_formed_def aligned_def provisionable_def write_size_in_effect_def
      example_request_def multiple_of_def endswith_def isdir_ds_def empty_store_def
      lstrip_slash_def plain_name_def plain_path_def name_char_def known_compressor_def)

text \<open>
  Claim C10. On the creation path with a write size in effect (a well-formed, aligned
  request on a Zarr or N5 path whose dataset does not exist), the dataset is created
  with the planned chunk shape, in voxels, as its chunks, and the handle that is
  returned carries that chunk shape divided elementwise by the voxel size once more
  (the channel axis, if any, by 1). The two differ whenever a component of the voxel
  size is not 1.
\<close>

theorem prepare_ds_fresh_chunk_shape:
  assumes wf: "well_formed req" and al: "aligned req" and pr: "provisionable (req_filename req)"
    and ws: "write_size_in_effect req = Some ws"
    and fresh: "\<not> isdir_ds st (req_filename req) (lstrip_slash (req_ds_name req))"
  shows "\<exists>p c h st'.
           prepare_request req = Inr p \<and> p_chunk_shape p = Some c \<and>
           prepare_ds req st = (Inr h, st') \<and>
           backend_open st' (req_filename req) (p_ds_name p) = Inr (Dataset (arr_data h)) \<and>
           ds_chunks (arr_data h) = Some c \<and>
           arr_chunk_shape h =
             Some (map2 (div) c (case req_num_channels req of
                                    None \<Rightarrow> req_voxel_size req
                                  | Some n \<Rightarrow> 1 # req_voxel_size req)) \<and>
           ((\<exists>x\<in>set (req_voxel_size req). x \<noteq> 1) \<longrightarrow>
              arr_chunk_shape h \<noteq> ds_chunks (arr_data h))"
proof -
  let ?v = "req_voxel_size req"
  let ?w = "case req_num_channels req of None \<Rightarrow> ?v | Some n \<Rightarrow> 1 # ?v"
  from prepare_request_ok [OF wf al pr] ws obtain p c where
    p: "prepare_request req = Inr p" "p_ds_name p = lstrip_slash (req_ds_name req)"
      "p_voxel_size_with_channels p =
         (case req_num_channels req of None \<Rightarrow> None | Some n \<Rightarrow> Some (1 # ?v))"
      "p_compressor p = resolve_compressor (req_compressor req)"
    and c: "length c = length ?v" "list_all (\<lambda>x. 1 \<le> x \<and> x < 2 ^ 53) c"
      "p_chunk_shape p = Some (case req_num_channels req of None \<Rightarrow> c | Some n \<Rightarrow> n # c)"
    by auto
  let ?cc = "case req_num_channels req of None \<Rightarrow> c | Some n \<Rightarrow> n # c"
  let ?st1 = "if \<not> isdir st (req_filename req) then makedirs st (req_filename req) else st"
  let ?d = "new_dataset ?st1 req p"
  let ?h = "mk_array ?d (req_total_roi req) ?v None (Some (map2 (div) ?cc ?w))"
  have pos: "list_all (\<lambda>x. 0 < x) ?v" using wf by (simp add: well_formed_def)
  have chan: "case req_num_channels req of None \<Rightarrow> True | Some n \<Rightarrow> 0 < n \<and> n < 2 ^ 53"
    using wf by (simp add: well_formed_def)
  have ne: "p_ds_name p \<noteq> []"
    using wf by (simp add: p(2) well_formed_def plain_name_def)
  have codec: "get_codec (p_compressor p) = Inr (p_compressor p)"
    using wf by (simp add: p(4) get_codec_known well_formed_def)
  have w_eq: "(case p_voxel_size_with_channels p of None \<Rightarrow> ?v | Some w \<Rightarrow> w) = ?w"
    by (simp add: p(3) split: option.splits)
  have q: "coord_truediv ?cc (case p_voxel_size_with_channels p of None \<Rightarrow> ?v | Some w \<Rightarrow> w) =
           Inr (map2 (div) ?cc ?w)"
    unfolding w_eq by (rule chunk_division [OF c(1,2) pos chan])
  have cb: "create_branch req p ?st1 =
      (Inr ?h, create_dataset ?st1 (req_filename req) (p_ds_name p) ?d)"
    by (rule create_branch_chunked [OF codec c(3) refl q])
  have run: "prepare_ds req st = (Inr ?h, create_dataset ?st1 (req_filename req) (p_ds_name p) ?d)"
    using prepare_ds_fresh [OF p(1) _ ne] fresh cb by (simp add: p(2))
  have c1: "list_all (\<lambda>x. 1 \<le> x) c" using c(2) by (induction c) simp_all
  have differ: "(\<exists>x\<in>set ?v. x \<noteq> 1) \<longrightarrow> map2 (div) ?cc ?w \<noteq> ?cc"
  proof
    assume "\<exists>x\<in>set ?v. x \<noteq> 1"
    from map2_div_differs [OF c(1) c1 pos this] show "map2 (div) ?cc ?w \<noteq> ?cc"
      by (simp split: option.splits)
  qed
  have "arr_data ?h = ?d" "arr_chunk_shape ?h = Some (map2 (div) ?cc ?w)"
    "ds_chunks ?d = Some ?cc"
    by (simp_all add: mk_array_def new_dataset_def c(3))
  then show ?thesis
    using p(1) c(3) run differ
      backend_open_created [OF ne, of ?st1 "req_filename req" ?d]
    by (intro exI [of _ p] exI [of _ ?cc] exI [of _ ?h]
        exI [of _ "create_dataset ?st1 (req_filename req) (p_ds_name p) ?d"]) simp
qed

theorem prepare_ds_fresh_chunk_shape_witness:
  "well_formed example_request \<and> aligned example_request \<and>
   provisionable (req_filename example_request) \<and>
   write_size_in_effect example_request = Some [4, 6] \<and>
   \<not> isdir_ds empty_store (req_filename example_request)
        (lstrip_slash (req_ds_name example_request)) \<and>
   (\<exists>p c h st'.
      prepare_request example_request = Inr p \<and> p_chunk_shape p = Some c \<and>
      prepare_ds example_request empty_store = (Inr h, st') \<and>
      backend_open st' (req_filename example_request) (p_ds_name p) = Inr (Dataset (arr_data h)) \<and>
      ds_chunks (arr_data h) = Some c \<and>
      arr_chunk_shape h =
        Some (map2 (div) c (case req_num_channels example_request of
                               None \<Rightarrow> req_voxel_size example_request
                             | Some n \<Rightarrow> 1 # req_voxel_size example_request)) \<and>
      arr_chunk_shape h \<noteq> ds_chunks (arr_data h)) \<and>
   map_sum id arr_chunk_shape (fst (prepare_ds example_request empty_store)) = Inr (Some [3, 1, 0]) \<and>
   map_sum id (\<lambda>h. ds_chunks (arr_data h)) (fst (prepare_ds example_request empty_store)) =
     Inr (Some [3, 2, 2])"
proof -
  have v: "\<exists>x\<in>set (req_voxel_size example_request). x \<noteq> 1"
    by (simp add: example_request_def)
  have e: "map_sum id arr_chunk_shape (fst (prepare_ds example_request empty_store)) =
             Inr (Some [3, 1, 0])"
    "map_sum id (\<lambda>h. ds_chunks (arr_data h)) (fst (prepare_ds example_request empty_store)) =
       Inr (Some [3, 2, 2])"
    by code_simp+
  from prepare_ds_fresh_chunk_shape [OF example_request_wf] v
  have "\<exists>p c h st'.
      prepare_request example_request = Inr p \<and> p_chunk_shape p = Some c \<and>
      prepare_ds example_request empty_store = (Inr h, st') \<and>
      backend_open st' (req_filename example_request) (p_ds_name p) = Inr (Dataset (arr_data h)) \<and>
      ds_chunks (arr_data h) = Some c \<and>
      arr_chunk_shape h =
        Some (map2 (div) c (case req_num_channels example_request of
                               None \<Rightarrow> req_voxel_size example_request
                             | Some n \<Rightarrow> 1 # req_voxel_size example_request)) \<and>
      arr_chunk_shape h \<noteq> ds_chunks (arr_data h)"
    by blast
  then show ?thesis using example_request_wf e by blast
qed

lemma open_ds_provisionable:
  assumes "provisionable f"
  shows "open_ds depth st f n mode =
           and_then (backend_open st f n)
             (\<lambda>nd. open_node nd (if endswith f ''.zarr'' then None else Some ''F''))"
  using assms provisionable_suffixes(3) [OF assms]
  by (auto simp: provisionable_def)

lemma map2_mult_div:
  fixes a v :: "int list"
  assumes "length a = length v" "multiple_of a v"
  shows "map2 (*) v (map2 (div) a v) = a"
  using assms
  by (induction a v rule: list_induct2) (simp_all add: multiple_of_def)

lemma read_new_dataset:
  assumes wf: "well_formed req" and al: "aligned req"
  shows "read_voxel_size_offset (new_dataset st req p)
           (if p_file_format p = ''zarr'' then ''C'' else ''F'') =
         Inr (req_voxel_size req, roi_begin (req_total_roi req))"
proof -
  let ?v = "req_voxel_size req" and ?b = "roi_begin (req_total_roi req)"
  let ?d = "new_dataset st req p"
  have len: "length ?b = length ?v" using wf by (simp add: well_formed_def)
  have small: "list_all (\<lambda>x. \<bar>x\<bar> < 2 ^ 53) ?b" using wf by (simp add: well_formed_def)
  have snap: "snap_offset ?b ?v = Inr ?b"
    using len small well_formed_nonzero [OF wf] al
    by (intro snap_offset_aligned) (simp_all add: aligned_def)
  show ?thesis
  proof (cases "p_file_format p = ''zarr''")
    case True
    have v: "read_voxel_size (ds_attrs ?d) ''C'' = Inr (Some ?v)"
      using True by (simp add: read_voxel_size_def new_dataset_def no_attrs_def)
    have o: "read_offset (ds_attrs ?d) ''C'' (map_option length (Some ?v)) =
        Inr (Some ?b, Some (length ?v))"
      using True len by (simp add: read_offset_def new_dataset_def no_attrs_def)
    have "read_voxel_size_offset ?d ''C'' = Inr (?v, ?b)"
      unfolding resolve_after_sources [OF v o] using snap by (simp add: Let_def)
    with True show ?thesis by simp
  next
    case False
    have v: "read_voxel_size (ds_attrs ?d) ''F'' = Inr (Some (rev ?v))"
      using False by (simp add: read_voxel_size_def new_dataset_def no_attrs_def)
    have o: "read_offset (ds_attrs ?d) ''F'' (map_option length (Some (rev ?v))) =
        Inr (Some (rev ?b), Some (length (rev ?v)))"
      using False len by (simp add: read_offset_def new_dataset_def no_attrs_def)
    have "read_voxel_size_offset ?d ''F'' = Inr (?v, ?b)"
      unfolding resolve_after_sources [OF v o] using snap by (simp add: Let_def)
    with False show ?thesis by simp
  qed
qed

lemma reopen_new_dataset:
  assumes wf: "well_formed req" and al: "aligned req" and pr: "provisionable (req_filename req)"
    and fmt: "p_file_format p = (if endswith (req_filename req) ''.zarr'' then ''zarr'' else ''n5'')"
    and sh: "p_shape p =
             (case req_num_channels req of
                None \<Rightarrow> map2 (div) (roi_shape (req_total_roi req)) (req_voxel_size req)
              | Some n \<Rightarrow> n # map2 (div) (roi_shape (req_total_roi req)) (req_voxel_size req))"
    and ne: "n \<noteq> []"
  shows "open_ds depth (create_dataset st (req_filename req) n (new_dataset st0 req p))
           (req_filename req) n mode =
         Inr (mk_array (new_dataset st0 req p) (req_total_roi req) (req_voxel_size req) None
                (ds_chunks (new_dataset st0 req p)))"
proof -
  let ?v = "req_voxel_size req" and ?R = "req_total_roi req" and ?d = "new_dataset st0 req p"
  let ?S = "map2 (div) (roi_shape ?R) ?v"
  have len: "length (roi_shape ?R) = length ?v" "?v \<noteq> []"
    using wf by (simp_all add: well_formed_def)
  have ord: "(case (if endswith (req_filename req) ''.zarr'' then None else Some ''F'') of
                None \<Rightarrow> ds_order ?d | Some ord \<Rightarrow> ord) =
             (if p_file_format p = ''zarr'' then ''C'' else ''F'')"
    by (simp add: fmt new_dataset_def)
  have last: "py_last_n (length ?v) (ds_shape ?d) = ?S"
    using len by (simp add: py_last_n_def new_dataset_def sh split: option.splits)
  have mul: "coord_mul ?v ?S = Inr (roi_shape ?R)"
    using len(1) al by (simp add: coord_mul_def map2_mult_div aligned_def)
  have roi: "\<lparr>roi_begin = roi_begin ?R, roi_shape = roi_shape ?R\<rparr> = ?R" by simp
  have "open_with_order ?d (if p_file_format p = ''zarr'' then ''C'' else ''F'') =
        Inr (mk_array ?d ?R ?v None (ds_chunks ?d))"
    unfolding open_with_order_def read_new_dataset [OF wf al]
    by (simp add: last mul roi)
  then have "open_node (Dataset ?d)
               (if endswith (req_filename req) ''.zarr'' then None else Some ''F'') =
             Inr (mk_array ?d ?R ?v None (ds_chunks ?d))"
    unfolding open_node_def using ord by simp
  then show ?thesis
    by (simp add: open_ds_provisionable [OF pr] backend_open_created [OF ne] del: open_ds.simps)
qed

lemma mismatches_new_dataset:
  assumes wf: "well_formed req"
    and sh: "p_shape p =
             (case req_num_channels req of
                None \<Rightarrow> map2 (div) (roi_shape (req_total_roi req)) (req_voxel_size req)
              | Some n \<Rightarrow> n # map2 (div) (roi_shape (req_total_roi req)) (req_voxel_size req))"
    and wc: "p_write_size p \<noteq> None \<longrightarrow> p_chunk_shape p \<noteq> None"
  shows "array_shape (mk_array (new_dataset st0 req p) (req_total_roi req) (req_voxel_size req) x c) =
           Inr (p_shape p)"
    and "mismatches req p
           (mk_array (new_dataset st0 req p) (req_total_roi req) (req_voxel_size req) None
              (ds_chunks (new_dataset st0 req p))) = Inr []"
proof -
  have "length (roi_shape (req_total_roi req)) = length (req_voxel_size req)"
    "list_all (\<lambda>x. 0 < x \<and> x < 2 ^ 53) (roi_shape (req_total_roi req))"
    "list_all (\<lambda>x. 0 < x) (req_voxel_size req)"
    using wf by (simp_all add: well_formed_def)
  then have q: "coord_truediv (roi_shape (req_total_roi req)) (req_voxel_size req) =
      Inr (map2 (div) (roi_shape (req_total_roi req)) (req_voxel_size req))"
    by (intro coord_truediv_nonneg small_positive(1))
  have len: "length (roi_shape (req_total_roi req)) = length (req_voxel_size req)"
    using wf by (simp add: well_formed_def)
  show a: "array_shape (mk_array (new_dataset st0 req p) (req_total_roi req) (req_voxel_size req) x c) =
           Inr (p_shape p)" for x c
    using len
    by (simp add: array_shape_def mk_array_def new_dataset_def q sh split: option.splits)
  show "mismatches req p
           (mk_array (new_dataset st0 req p) (req_total_roi req) (req_voxel_size req) None
              (ds_chunks (new_dataset st0 req p))) = Inr []"
    unfolding mismatches_def a using wc
    by (auto simp: mk_array_def new_dataset_def array_dtype_def)
qed

text \<open>
  Claim C2, as amended. For every well-formed and aligned request on a Zarr or N5
  container path whose dataset does not exist, \<^verbatim>\<open>prepare_ds\<close> succeeds, and a second
  call with the same arguments on the store that the first left succeeds as well,
  leaves that store as it is, and returns a handle with the same shape, Roi, voxel
  size and dtype as the first: those of the request.
\<close>

theorem prepare_ds_idempotent:
  assumes wf: "well_formed req" and al: "aligned req" and pr: "provisionable (req_filename req)"
    and fresh: "\<not> isdir_ds st (req_filename req) (lstrip_slash (req_ds_name req))"
  shows "\<exists>h1 h2 st1 s.
           prepare_ds req st = (Inr h1, st1) \<and>
           prepare_ds req st1 = (Inr h2, st1) \<and>
           array_shape h1 = Inr s \<and> array_shape h2 = Inr s \<and>
           arr_roi h1 = req_total_roi req \<and> arr_roi h2 = req_total_roi req \<and>
           arr_voxel_size h1 = req_voxel_size req \<and> arr_voxel_size h2 = req_voxel_size req \<and>
           array_dtype h1 = req_dtype req \<and> array_dtype h2 = req_dtype req"
proof -
  let ?f = "req_filename req" and ?v = "req_voxel_size req" and ?R = "req_total_roi req"
  from prepare_request_ok [OF wf al pr] obtain p where
    p: "prepare_request req = Inr p" and name: "p_ds_name p = lstrip_slash (req_ds_name req)"
    and pw: "p_write_size p = write_size_in_effect req"
    and comp: "p_compressor p = resolve_compressor (req_compressor req)"
    and fmt: "p_file_format p = (if endswith ?f ''.zarr'' then ''zarr'' else ''n5'')"
    and sh: "p_shape p =
             (case req_num_channels req of
                None \<Rightarrow> map2 (div) (roi_shape ?R) ?v
              | Some n \<Rightarrow> n # map2 (div) (roi_shape ?R) ?v)"
    and vc: "p_voxel_size_with_channels p =
             (case req_num_channels req of None \<Rightarrow> None | Some n \<Rightarrow> Some (1 # ?v))"
    and ch: "case write_size_in_effect req of
              None \<Rightarrow> p_chunk_shape p = None
            | Some ws \<Rightarrow>
               (\<exists>c. length c = length ?v \<and> list_all (\<lambda>x. 1 \<le> x \<and> x < 2 ^ 53) c \<and>
                    p_chunk_shape p =
                      Some (case req_num_channels req of None \<Rightarrow> c | Some n \<Rightarrow> n # c))"
    by blast
  let ?st0 = "if \<not> isdir st ?f then makedirs st ?f else st"
  let ?d = "new_dataset ?st0 req p"
  let ?st1 = "create_dataset ?st0 ?f (p_ds_name p) ?d"
  have pos: "list_all (\<lambda>x. 0 < x) ?v" using wf by (simp add: well_formed_def)
  have chan: "case req_num_channels req of None \<Rightarrow> True | Some n \<Rightarrow> 0 < n \<and> n < 2 ^ 53"
    using wf by (simp add: well_formed_def)
  have ne: "p_ds_name p \<noteq> []"
    using wf by (simp add: name well_formed_def plain_name_def)
  have codec: "get_codec (p_compressor p) = Inr (p_compressor p)"
    using wf by (simp add: comp get_codec_known well_formed_def)
  have wc: "p_write_size p \<noteq> None \<longrightarrow> p_chunk_shape p \<noteq> None"
    using ch by (auto simp: pw split: option.splits)
  have "\<exists>c'. create_branch req p ?st0 = (Inr (mk_array ?d ?R ?v None c'), ?st1)"
  proof (cases "p_chunk_shape p")
    case None
    then show ?thesis using create_branch_unchunked [OF codec, of req ?st0] by blast
  next
    case (Some cc)
    let ?w = "case req_num_channels req of None \<Rightarrow> ?v | Some n \<Rightarrow> 1 # ?v"
    from Some ch obtain c where c: "length c = length ?v"
      "list_all (\<lambda>x. 1 \<le> x \<and> x < 2 ^ 53) c"
      "cc = (case req_num_channels req of None \<Rightarrow> c | Some n \<Rightarrow> n # c)"
      by (auto split: option.splits)
    have w_eq: "(case p_voxel_size_with_channels p of None \<Rightarrow> ?v | Some w \<Rightarrow> w) = ?w"
      by (simp add: vc split: option.splits)
    have "coord_truediv cc (case p_voxel_size_with_channels p of None \<Rightarrow> ?v | Some w \<Rightarrow> w) =
          Inr (map2 (div) cc ?w)"
      unfolding w_eq c(3) by (rule chunk_division [OF c(1,2) pos chan])
    from create_branch_chunked [OF codec Some refl this, of ?st0] show ?thesis by blast
  qed
  then obtain c' where cb: "create_branch req p ?st0 = (Inr (mk_array ?d ?R ?v None c'), ?st1)"
    by blast
  let ?h1 = "mk_array ?d ?R ?v None c'"
  let ?h2 = "mk_array ?d ?R ?v None (ds_chunks ?d)"
  have first: "prepare_ds req st = (Inr ?h1, ?st1)"
    using prepare_ds_fresh [OF p _ ne] fresh cb by (simp add: name)
  have op: "open_ds recursion_limit ?st1 ?f (p_ds_name p) ''a'' = Inr ?h2"
    by (rule reopen_new_dataset [OF wf al pr fmt sh ne])
  have second: "prepare_ds req ?st1 = (Inr ?h2, ?st1)"
    using prepare_ds_existing [OF p isdir_ds_created op mismatches_new_dataset(2) [OF wf sh wc]]
    by simp
  have "array_shape ?h1 = Inr (p_shape p)" "array_shape ?h2 = Inr (p_shape p)"
    by (rule mismatches_new_dataset(1) [OF wf sh wc])+
  moreover have "arr_roi ?h1 = ?R" "arr_roi ?h2 = ?R" "arr_voxel_size ?h1 = ?v"
    "arr_voxel_size ?h2 = ?v" "array_dtype ?h1 = req_dtype req" "array_dtype ?h2 = req_dtype req"
    by (simp_all add: mk_array_def array_dtype_def new_dataset_def)
  ultimately show ?thesis using first second by blast
qed

theorem prepare_ds_idempotent_witness:
  "well_formed example_request \<and> aligned example_request \<and>
   provisionable (req_filename example_request) \<and>
   \<not> isdir_ds empty_store (req_filename example_request)
        (lstrip_slash (req_ds_name example_request)) \<and>
   (\<exists>h1 h2 st1 s.
      prepare_ds example_request empty_store = (Inr h1, st1) \<and>
      prepare_ds example_request st1 = (Inr h2, st1) \<and>
      array_shape h1 = Inr s \<and> array_shape h2 = Inr s \<and>
      arr_roi h1 = req_total_roi example_request \<and> arr_roi h2 = req_total_roi example_request \<and>
      arr_voxel_size h1 = req_voxel_size example_request \<and>
      arr_voxel_size h2 = req_voxel_size example_request \<and>
      array_dtype h1 = req_dtype example_request \<and> array_dtype h2 = req_dtype example_request) \<and>
   fst (prepare_ds example_request provisioned_store) = Inr example_handle"
proof -
  have e: "fst (prepare_ds example_request provisioned_store) = Inr example_handle"
    by code_simp
  show ?thesis
    using prepare_ds_idempotent [OF example_request_wf(1,2,3,5)] example_request_wf e by blast
qed

text \<open>
  Claim C2 as stated fails: an aligned request on a fresh HDF5 path is refused (lines
  266--267); an aligned request whose dataset name is only slashes finds the
  container that it has just created in place of the dataset and raises on the
  root group; and an aligned request with a zero write size component raises in the
  chunk planner.
\<close>

theorem prepare_ds_idempotent_counterexample:
  "well_formed (example_request\<lparr>req_filename := ''a.h5''\<rparr>) \<and>
   aligned (example_request\<lparr>req_filename := ''a.h5''\<rparr>) \<and>
   \<not> isdir empty_store ''a.h5'' \<and>
   prepare_ds (example_request\<lparr>req_filename := ''a.h5''\<rparr>) empty_store =
     (Inl (RuntimeError ''prepare_ds does not support HDF5 files'' []), empty_store) \<and>
   aligned (example_request\<lparr>req_ds_name := ''/''\<rparr>) \<and>
   fst (prepare_ds (example_request\<lparr>req_ds_name := ''/''\<rparr>) empty_store) =
     Inl (AttributeError ''order'') \<and>
   aligned (example_request\<lparr>req_write_size := Some [0, 6]\<rparr>) \<and>
   fst (prepare_ds (example_request\<lparr>req_write_size := Some [0, 6]\<rparr>) empty_store) = Inl TypeError"
proof -
  let ?r = "example_request\<lparr>req_filename := ''a.h5''\<rparr>"
  have w: "aligned ?r" "\<not> isdir empty_store ''a.h5''"
    "aligned (example_request\<lparr>req_ds_name := ''/''\<rparr>)"
    "aligned (example_request\<lparr>req_write_size := Some [0, 6]\<rparr>)"
    by (simp_all add: aligned_def write_size_in_effect_def
        example_request_def multiple_of_def isdir_def empty_store_def)
  have wf: "well_formed ?r"
    by (simp add: well_formed_def write_size_in_effect_def example_request_def
        lstrip_slash_def plain_name_def plain_path_def name_char_def known_compressor_def)
  have "prepare_request ?r = Inl (RuntimeError ''prepare_ds does not support HDF5 files'' [])"
    by code_simp
  then have a: "prepare_ds ?r empty_store =
      (Inl (RuntimeError ''prepare_ds does not support HDF5 files'' []), empty_store)"
    by (rule prepare_ds_request_error)
  have b: "fst (prepare_ds (example_request\<lparr>req_ds_name := ''/''\<rparr>) empty_store) =
      Inl (AttributeError ''order'')"
    "fst (prepare_ds (example_request\<lparr>req_write_size := Some [0, 6]\<rparr>) empty_store) =
      Inl TypeError"
    by code_simp+
  show ?thesis using wf w a b by simp
qed

text \<open>
  Claim C7, as amended. When a request with plain names passes the preconditions,
  its dataset exists and opens as a chunked dataset whose shape can be computed, and
  any of the compatibility checks fails (shape, Roi, voxel size, chunk shape when a
  write size is in effect, dtype) with \<^verbatim>\<open>delete\<close> false, then \<^verbatim>\<open>prepare_ds\<close> raises
  the error of lines 357--360, which names the container and the dataset, and leaves
  the store as it was: opening the dataset afterwards gives the same handle as
  before.
\<close>

theorem prepare_ds_incompatible:
  assumes p: "prepare_request req = Inr p"
    and pf: "plain_path (req_filename req)"
    and pn: "plain_name (p_ds_name p)"
    and ex: "isdir_ds st (req_filename req) (p_ds_name p)"
    and op: "open_ds recursion_limit st (req_filename req) (p_ds_name p) ''a'' = Inr a"
    and ck: "ds_chunks (arr_data a) \<noteq> None"
    and sh: "array_shape a = Inr s"
    and bad: "s \<noteq> p_shape p \<or> arr_roi a \<noteq> req_total_roi req \<or>
              arr_voxel_size a \<noteq> req_voxel_size req \<or>
              (p_write_size p \<noteq> None \<and> ds_chunks (arr_data a) \<noteq> p_chunk_shape p) \<or>
              req_dtype req \<noteq> array_dtype a"
    and nd: "\<not> req_delete req"
  shows "prepare_ds req st = (Inl (incompatible_error (req_filename req) (p_ds_name p)), st) \<and>
         open_ds recursion_limit (snd (prepare_ds req st)) (req_filename req) (p_ds_name p) ''a'' =
           Inr a"
proof -
  obtain differing where m: "mismatches req p a = Inr differing"
    by (simp add: mismatches_def sh)
  have "differing \<noteq> []"
    using m bad by (auto simp: mismatches_def sh split: if_splits)
  then have "prepare_ds req st = (Inl (incompatible_error (req_filename req) (p_ds_name p)), st)"
    using prepare_ds_existing [OF p ex op m] nd by simp
  then show ?thesis using op by simp
qed

theorem prepare_ds_incompatible_witness:
  "prepare_request retyped_request = Inr example_plan \<and>
   plain_path (req_filename retyped_request) \<and> plain_name (p_ds_name example_plan) \<and>
   isdir_ds provisioned_store (req_filename retyped_request) (p_ds_name example_plan) \<and>
   open_ds recursion_limit provisioned_store (req_filename retyped_request)
     (p_ds_name example_plan) ''a'' = Inr example_handle \<and>
   ds_chunks (arr_data example_handle) \<noteq> None \<and>
   array_shape example_handle = Inr [3, 4, 4] \<and>
   req_dtype retyped_request \<noteq> array_dtype example_handle \<and>
   \<not> req_delete retyped_request \<and>
   prepare_ds retyped_request provisioned_store =
     (Inl (incompatible_error (req_filename retyped_request) (p_ds_name example_plan)),
      provisioned_store) \<and>
   open_ds recursion_limit (snd (prepare_ds retyped_request provisioned_store))
     (req_filename retyped_request) (p_ds_name example_plan) ''a'' = Inr example_handle"
proof -
  have p: "prepare_request retyped_request = Inr example_plan" by code_simp
  have pl: "plain_path (req_filename retyped_request)" "plain_name (p_ds_name example_plan)"
    by code_simp+
  have ex: "isdir_ds provisioned_store (req_filename retyped_request) (p_ds_name example_plan)"
    by code_simp
  have op: "open_ds recursion_limit provisioned_store (req_filename retyped_request)
     (p_ds_name example_plan) ''a'' = Inr example_handle" by code_simp
  have ck: "ds_chunks (arr_data example_handle) \<noteq> None"
    by (simp add: example_handle_def example_dataset_def)
  have sh: "array_shape example_handle = Inr [3, 4, 4]" by code_simp
  have dt: "req_dtype retyped_request \<noteq> array_dtype example_handle" by code_simp
  have nd: "\<not> req_delete retyped_request" by code_simp
  have bad: "[3, 4, 4] \<noteq> p_shape example_plan \<or>
      arr_roi example_handle \<noteq> req_total_roi retyped_request \<or>
      arr_voxel_size example_handle \<noteq> req_voxel_size retyped_request \<or>
      (p_write_size example_plan \<noteq> None \<and>
       ds_chunks (arr_data example_handle) \<noteq> p_chunk_shape example_plan) \<or>
      req_dtype retyped_request \<noteq> array_dtype example_handle"
    using dt by simp
  show ?thesis
    using prepare_ds_incompatible [OF p pl ex op ck sh bad nd] p pl ex op ck sh dt nd by simp
qed

text \<open>
  Claim C7 as stated fails in what the error names: a request that differs in the
  dtype and one that differs in the shape and the Roi raise the same error, whose
  message holds the container and the dataset name and no field.
\<close>

theorem prepare_ds_incompatible_counterexample:
  "differing_fields retyped_request provisioned_store = Inr [''dtypes''] \<and>
   differing_fields resized_request provisioned_store = Inr [''Shapes'', ''ROIs''] \<and>
   fst (prepare_ds retyped_request provisioned_store) =
     Inl (RuntimeError
       ''Existing dataset is not compatible, please manually delete the volume at %s/%s''
       [''a.zarr'', ''x'']) \<and>
   fst (prepare_ds resized_request provisioned_store) =
     Inl (RuntimeError
       ''Existing dataset is not compatible, please manually delete the volume at %s/%s''
       [''a.zarr'', ''x''])"
  by code_simp

end
